theory Spec2Isabelle
  imports Complex_Main
begin

section \<open>Stepwise selection (pstatmodel/stepwise/base.py)\<close>

text \<open>
  The function \<open>stepwise_selection\<close> of \<open>src/pstatmodel/stepwise/base.py\<close> is embedded
  as a state-passing program: one function per step of a pass, a step function for the
  pass, and the unbounded loop over it. Printing (\<open>verbose\<close>) is left out.

  \<^item> Python floats are idealised as reals, with the two decimal roundings written out.
    A NaN is written \<open>None\<close> where the code itself produces one: the minimum or maximum
    of an empty Series, and the sentinels of the early return.
  \<^item> The expression \<open>sm.OLS(y, sm.add_constant(X[cols])).fit()\<close> is the external
    fitter. It is a parameter of the model: a function of the column list \<open>cols\<close> that
    either raises or returns a number as the p-value of every named coefficient and a
    number as the coefficient of determination (spec, section 6). The intercept is the
    first coefficient, so \<open>model.pvalues.iloc[1:]\<close> holds the p-values of \<open>cols\<close>.
  \<^item> Column names are strings, so that \<open>new_rval[_ix]\<close> reads the Series by position.
\<close>

subsection \<open>Rounding\<close>

text \<open>\<open>np.round(x, decimals=2)\<close> and \<open>round(x, 3)\<close>: scale, round half to even, scale back.\<close>

definition round_half_even :: "real \<Rightarrow> int" where
  "round_half_even x =
     (let f = \<lfloor>x\<rfloor>; d = x - of_int f
      in if d < 1 / 2 then f else if 1 / 2 < d then f + 1
         else if even f then f else f + 1)"

definition np_round2 :: "real \<Rightarrow> real" where
  "np_round2 x = of_int (round_half_even (x * 100)) / 100"

definition py_round3 :: "real \<Rightarrow> real" where
  "py_round3 x = of_int (round_half_even (x * 1000)) / 1000"

text \<open>\<open>np.round(max([0.01, threshold_in - 0.01]), decimals=2)\<close> (lines 85, 86-88, 151).\<close>

definition lower_threshold :: "real \<Rightarrow> real" where
  "lower_threshold t = np_round2 (max (1 / 100) (t - 1 / 100))"

text \<open>\<open>np.round(min([0.1, threshold_in + 0.01]), decimals=2)\<close> (lines 123-125, 167).\<close>

definition raise_threshold :: "real \<Rightarrow> real" where
  "raise_threshold t = np_round2 (min (1 / 10) (t + 1 / 100))"

subsection \<open>Data\<close>

type_synonym feature = string

text \<open>
  A fitted model: \<open>pvalue m c\<close> is \<open>model.pvalues[c]\<close>, the p-value stored under the
  coefficient label \<open>c\<close>; \<open>rsquared m\<close> is \<open>model.rsquared\<close>. For a model fitted on the
  columns \<open>cols\<close>, \<open>model.pvalues\<close> is the Series with labels \<open>const # cols\<close>.
\<close>

record fitted =
  pvalue :: "feature \<Rightarrow> real"
  rsquared :: real

datatype error =
    FitError          \<comment> \<open>whatever \<open>X[cols]\<close> or the fitter raises\<close>
  | IndexError        \<comment> \<open>\<open>list.pop\<close> out of range\<close>
  | UnboundLocalError \<comment> \<open>\<open>mask\<close> read before assignment\<close>

text \<open>
  The inputs that stay fixed during one invocation. \<open>set_order\<close> is the iteration order
  of the Python set \<open>set(X.columns) - set(included)\<close>, which the language leaves open.
\<close>

record config =
  fit :: "feature list \<Rightarrow> error + fitted"
  columns :: "feature list"
  set_order :: "feature set \<Rightarrow> feature list"
  caller_threshold_in :: real      \<comment> \<open>\<open>_threshold_in\<close>\<close>
  threshold_out :: real
  max_vars :: int
  min_vars :: int

text \<open>
  The variables the loop mutates. \<open>fit_log\<close> records the design of every fitter call, in
  call order: it is the observable effect of the calls to the external fitter.
\<close>

record state =
  included :: "feature list"
  included_pvals :: "real list"
  included_rvals :: "real list"
  threshold_in :: real
  lower :: bool
  rcond :: bool
  dropped :: bool
  onetime :: bool
  fit_log :: "feature list list"

text \<open>Lines 29-37.\<close>

definition init_state :: "feature list \<Rightarrow> state" where
  "init_state initial_list =
     \<lparr>included = initial_list, included_pvals = [], included_rvals = [],
      threshold_in = 1 / 10, lower = False, rcond = False, dropped = False,
      onetime = True, fit_log = []\<rparr>"

subsection \<open>Series and list helpers\<close>

text \<open>\<open>Series.min()\<close> and \<open>Series.max()\<close>: NaN (\<open>None\<close>) on an empty Series.\<close>

definition series_min :: "real list \<Rightarrow> real option" where
  "series_min ps = (if ps = [] then None else Some (Min (set ps)))"

definition series_max :: "real list \<Rightarrow> real option" where
  "series_max ps = (if ps = [] then None else Some (Max (set ps)))"

text \<open>The position of the first element satisfying \<open>P\<close> (the length if there is none).\<close>

definition first_index :: "('a \<Rightarrow> bool) \<Rightarrow> 'a list \<Rightarrow> nat" where
  "first_index P xs = length (takeWhile (\<lambda>x. \<not> P x) xs)"

text \<open>\<open>Series.argmin()\<close>, \<open>Series.argmax()\<close>: the first position of the extremum.\<close>

definition argmin :: "real list \<Rightarrow> nat" where
  "argmin ps = first_index (\<lambda>p. p = Min (set ps)) ps"

definition argmax :: "real list \<Rightarrow> nat" where
  "argmax ps = first_index (\<lambda>p. p = Max (set ps)) ps"

text \<open>The list without its element at position \<open>i\<close>.\<close>

definition remove_at :: "nat \<Rightarrow> 'a list \<Rightarrow> 'a list" where
  "remove_at i xs = take i xs @ drop (Suc i) xs"

text \<open>\<open>xs.pop(i)\<close> for \<open>i \<ge> 0\<close>: raises IndexError out of range.\<close>

definition pop :: "nat \<Rightarrow> 'a list \<Rightarrow> error + 'a list" where
  "pop i xs = (if i < length xs then Inr (remove_at i xs) else Inl IndexError)"

text \<open>\<open>round(model.rsquared, 3) ** (0.5)\<close>.\<close>

definition rvalue :: "fitted \<Rightarrow> real" where
  "rvalue m = sqrt (py_round3 (rsquared m))"

subsection \<open>Forward step (lines 45-61)\<close>

text \<open>
  The loop over \<open>excluded\<close>: one fit per candidate on \<open>included + [new_column]\<close>; the
  result pairs \<open>new_pval[new_column]\<close> with \<open>new_rval[new_column]\<close>. A fit that raises
  ends the invocation.
\<close>

fun fit_candidates :: "config \<Rightarrow> feature list \<Rightarrow> feature list \<Rightarrow> error + (real \<times> real) list" where
  "fit_candidates cfg inc [] = Inr []"
| "fit_candidates cfg inc (new_column # rest) =
     (case fit cfg (inc @ [new_column]) of
        Inl e \<Rightarrow> Inl e
      | Inr model \<Rightarrow>
          (case fit_candidates cfg inc rest of
             Inl e \<Rightarrow> Inl e
           | Inr prs \<Rightarrow> Inr ((pvalue model new_column, rvalue model) # prs)))"

definition excluded_of :: "config \<Rightarrow> state \<Rightarrow> feature list" where
  "excluded_of cfg s = set_order cfg (set (columns cfg) - set (included s))"

text \<open>Returns the new state and the flag \<open>changed\<close>.\<close>

definition forward_step :: "config \<Rightarrow> state \<Rightarrow> error + (state \<times> bool)" where
  "forward_step cfg s =
     (let excluded = excluded_of cfg s in
      case fit_candidates cfg (included s) excluded of
        Inl e \<Rightarrow> Inl e
      | Inr prs \<Rightarrow>
          (let new_pval = map fst prs;
               new_rval = map snd prs;
               s1 = s\<lparr>fit_log := fit_log s @ map (\<lambda>c. included s @ [c]) excluded\<rparr>
           in case series_min new_pval of
                None \<Rightarrow> Inr (s1, False)
              | Some best_pval \<Rightarrow>
                  if best_pval < threshold_in s then
                    (let ix = argmin new_pval;
                         best_feature = excluded ! ix
                     in Inr (s1\<lparr>included := included s @ [best_feature],
                                 included_pvals := included_pvals s @ [best_pval],
                                 included_rvals := included_rvals s @ [new_rval ! ix]\<rparr>, True))
                  else Inr (s1, False)))"

subsection \<open>Backward step (lines 63-76)\<close>

text \<open>Takes \<open>changed\<close> from the forward step; returns the state, \<open>changed\<close> and \<open>model\<close>.\<close>

definition backward_step :: "config \<Rightarrow> state \<Rightarrow> bool \<Rightarrow> error + (state \<times> bool \<times> fitted)" where
  "backward_step cfg s changed =
     (case fit cfg (included s) of
        Inl e \<Rightarrow> Inl e
      | Inr model \<Rightarrow>
          (let s1 = s\<lparr>fit_log := fit_log s @ [included s]\<rparr>;
               pvalues = map (pvalue model) (included s)
           in case series_max pvalues of
                None \<Rightarrow> Inr (s1, changed, model)
              | Some worst_pval \<Rightarrow>
                  if threshold_out cfg < worst_pval then
                    (let worst_feature = included s ! argmax pvalues;
                         idx = first_index (\<lambda>c. c = worst_feature) (included s)
                     in case pop idx (included_pvals s) of
                          Inl e \<Rightarrow> Inl e
                        | Inr ps \<Rightarrow>
                            (case pop idx (included_rvals s) of
                               Inl e \<Rightarrow> Inl e
                             | Inr rs \<Rightarrow>
                                 Inr (s1\<lparr>dropped := True,
                                         included_pvals := ps,
                                         included_rvals := rs,
                                         included := remove1 worst_feature (included s)\<rparr>,
                                      True, model)))
                  else Inr (s1, changed, model)))"

subsection \<open>Over-capacity handling (lines 81-138)\<close>

text \<open>
  Lines 93-96: the number of \<open>True\<close> entries before the first \<open>False\<close> of the mask, or of
  the whole mask when it has no \<open>False\<close>.
\<close>

definition prefix_size :: "bool list \<Rightarrow> int" where
  "prefix_size msk =
     (if False \<in> set msk
      then int (length (filter id (take (first_index (\<lambda>b. b = False) msk) msk)))
      else int (length (filter id msk)))"

text \<open>
  The variables of the tightening sub-loop; \<open>sub_mask\<close> is \<open>None\<close> while \<open>mask\<close> is unbound.
  \<open>sub_trace\<close> is the history of \<open>threshold_in\<close> inside the sub-loop: every value assigned
  to it there, in order.
\<close>

record sub_state =
  sub_threshold :: real
  sub_psize :: int
  sub_idem :: bool
  sub_mask :: "bool list option"
  sub_rcond :: bool
  sub_trace :: "real list"

text \<open>The threshold the next iteration of the sub-loop assigns, in hundredths.\<close>

definition sub_measure :: "sub_state \<Rightarrow> nat" where
  "sub_measure u = nat \<lfloor>100 * lower_threshold (sub_threshold u)\<rfloor>"


text \<open>Rounding fixes integers and is monotone against them; lowering a threshold lands on a
  whole number of hundredths, at least one, so the sub-loop below terminates.\<close>

lemma rhe_of_int: "round_half_even (of_int k) = k"
  by (simp add: round_half_even_def)

lemma rhe_ge: "of_int a \<le> x \<Longrightarrow> a \<le> round_half_even x"
proof -
  assume "of_int a \<le> x"
  then have "a \<le> \<lfloor>x\<rfloor>" by (simp add: le_floor_iff)
  then show ?thesis unfolding round_half_even_def Let_def by auto
qed

lemma rhe_le: "x \<le> of_int b \<Longrightarrow> round_half_even x \<le> b"
proof -
  assume h: "x \<le> of_int b"
  then have fb: "\<lfloor>x\<rfloor> \<le> b" by (simp add: floor_le_iff)
  show ?thesis
  proof (cases "x - of_int \<lfloor>x\<rfloor> < 1 / 2")
    case True
    then show ?thesis using fb unfolding round_half_even_def Let_def by simp
  next
    case False
    then have "of_int \<lfloor>x\<rfloor> < x" by linarith
    with h have "\<lfloor>x\<rfloor> < b" by linarith
    then show ?thesis unfolding round_half_even_def Let_def by auto
  qed
qed

lemma lower_threshold_hundredth:
  "\<exists>k\<ge>1. lower_threshold t = of_int k / 100"
proof -
  let ?x = "max (1 / 100) (t - 1 / 100) * 100"
  have "of_int 1 \<le> ?x" by (simp add: max_def)
  then have "1 \<le> round_half_even ?x" by (rule rhe_ge)
  then show ?thesis unfolding lower_threshold_def np_round2_def by blast
qed

lemma lower_threshold_of_hundredth:
  "2 \<le> k \<Longrightarrow> lower_threshold (of_int k / 100) = of_int (k - 1) / 100"
proof -
  assume k: "2 \<le> k"
  have "max (1 / 100) (of_int k / 100 - 1 / 100) * 100 = (of_int (k - 1) :: real)"
    using k by (simp add: max_def field_simps)
  then show ?thesis
    unfolding lower_threshold_def np_round2_def by (simp only: rhe_of_int)
qed

lemma sub_measure_decreases:
  assumes "lower_threshold (sub_threshold u) * 100 \<noteq> 1"
      and "sub_threshold u' = lower_threshold (sub_threshold u)"
  shows "sub_measure u' < sub_measure u"
proof -
  obtain k where k: "1 \<le> k" "lower_threshold (sub_threshold u) = of_int k / 100"
    using lower_threshold_hundredth by blast
  with assms have "k \<noteq> 1" by auto
  with k have k2: "2 \<le> k" by simp
  have a: "lower_threshold (sub_threshold u') = of_int (k - 1) / 100"
    using lower_threshold_of_hundredth [OF k2] by (simp only: assms(2) k(2))
  have "100 * (of_int (k - 1) / 100) = (of_int (k - 1) :: real)"
       "100 * (of_int k / 100) = (of_int k :: real)" by simp_all
  then have "sub_measure u' = nat (k - 1)" "sub_measure u = nat k"
    unfolding sub_measure_def a k(2) by (simp_all only: floor_of_int)
  then show ?thesis using k2 by simp
qed

text \<open>
  Lines 85-131, one iteration of the sub-loop: \<open>Again\<close> for the two \<open>continue\<close>
  statements, \<open>Break\<close> for the \<open>break\<close> of line 131.
\<close>

datatype sub_step = Again sub_state | Break sub_state

definition tighten_body :: "config \<Rightarrow> real list \<Rightarrow> real list \<Rightarrow> sub_state \<Rightarrow> sub_step" where
  "tighten_body cfg pvals rvals u =
     (let t = lower_threshold (sub_threshold u);
          t_next = lower_threshold t;
          msk = map (\<lambda>p. p < t) pvals;
          msk_next = map (\<lambda>p. p < t_next) pvals;
          psize = prefix_size msk;
          psize_next = prefix_size msk_next
      in if psize = psize_next \<and> t \<noteq> 1 / 100 \<and> psize \<noteq> 0 \<and> min_vars cfg \<le> psize then
           Again (u\<lparr>sub_threshold := t, sub_psize := psize, sub_idem := True,
                    sub_mask := Some msk, sub_trace := sub_trace u @ [t]\<rparr>)
         else if min_vars cfg \<le> psize \<and> psize \<le> max_vars cfg then
           Break (u\<lparr>sub_threshold := t, sub_psize := psize, sub_idem := False,
                    sub_mask := Some msk, sub_trace := sub_trace u @ [t]\<rparr>)
         else if psize < min_vars cfg \<or> t = 1 / 10 \<or> t = 1 / 100 then
           (if psize \<noteq> 13 then
              Break (u\<lparr>sub_threshold := raise_threshold t, sub_psize := psize,
                       sub_idem := False,
                       sub_mask := Some (map (\<lambda>r. r < 9 / 10) rvals), sub_rcond := True,
                       sub_trace := sub_trace u @ [t, raise_threshold t]\<rparr>)
            else
              Break (u\<lparr>sub_threshold := t, sub_psize := psize, sub_idem := False,
                       sub_mask := Some (map (\<lambda>r. r < 9 / 10) rvals), sub_rcond := True,
                       sub_trace := sub_trace u @ [t]\<rparr>))
         else
           Again (u\<lparr>sub_threshold := t, sub_psize := psize, sub_idem := False,
                    sub_mask := Some msk, sub_trace := sub_trace u @ [t]\<rparr>))"

lemma tighten_body_Again:
  assumes "tighten_body cfg pvals rvals u = Again u'"
  shows "sub_threshold u' = lower_threshold (sub_threshold u) \<and>
         lower_threshold (sub_threshold u) * 100 \<noteq> 1 \<and>
         sub_trace u' = sub_trace u @ [lower_threshold (sub_threshold u)] \<and>
         sub_rcond u' = sub_rcond u \<and>
         sub_mask u' = Some (map (\<lambda>p. p < lower_threshold (sub_threshold u)) pvals) \<and>
         (max_vars cfg < sub_psize u' \<or> sub_idem u')"
  using assms unfolding tighten_body_def Let_def
  by (auto split: if_splits)

text \<open>
  Lines 84-131: \<open>while psize > max_vars or idem\<close>. The loop is left by \<open>break\<close> with
  \<open>mask\<close> bound, or by its condition.
\<close>

function tighten_loop :: "config \<Rightarrow> real list \<Rightarrow> real list \<Rightarrow> sub_state \<Rightarrow> sub_state" where
  "tighten_loop cfg pvals rvals u =
     (if max_vars cfg < sub_psize u \<or> sub_idem u then
        (case tighten_body cfg pvals rvals u of
           Again u' \<Rightarrow> tighten_loop cfg pvals rvals u'
         | Break u' \<Rightarrow> u')
      else u)"
  by pat_completeness auto
termination
proof (relation "measure (\<lambda>(cfg, pvals, rvals, u). sub_measure u)")
  fix cfg pvals rvals u u'
  assume "tighten_body cfg pvals rvals u = Again u'"
  from tighten_body_Again [OF this]
  have "sub_measure u' < sub_measure u" by (intro sub_measure_decreases) simp_all
  then show "((cfg, pvals, rvals, u'), (cfg, pvals, rvals, u))
               \<in> measure (\<lambda>(cfg, pvals, rvals, u). sub_measure u)" by simp
qed simp

declare tighten_loop.simps [simp del]

text \<open>
  Lines 81-138: the sub-loop, then the truncation of \<open>included\<close> at the first remaining
  \<open>False\<close> position of \<open>mask\<close>, with a refit. The branch always leaves the outer loop.
\<close>

datatype step = Continue state | Done state fitted

text \<open>Lines 81-83: the variables on entry to the sub-loop.\<close>

definition sub_init :: "state \<Rightarrow> sub_state" where
  "sub_init s =
     \<lparr>sub_threshold = threshold_in s, sub_psize = 999, sub_idem = False,
      sub_mask = None, sub_rcond = rcond s, sub_trace = []\<rparr>"

text \<open>
  Lines 132-134: \<open>mfalse = np.where(mask == False)[0]\<close>, and \<open>mfalse[mfalse > 3]\<close> when
  \<open>rcond\<close> is set.
\<close>

definition truncation_points :: "bool list \<Rightarrow> bool \<Rightarrow> nat list" where
  "truncation_points msk rc =
     (let mfalse = filter (\<lambda>i. msk ! i = False) [0..<length msk]
      in if rc then filter (\<lambda>i. 3 < i) mfalse else mfalse)"

definition over_capacity :: "config \<Rightarrow> state \<Rightarrow> fitted \<Rightarrow> error + step" where
  "over_capacity cfg s model =
     (let u = tighten_loop cfg (included_pvals s) (included_rvals s) (sub_init s)
      in case sub_mask u of
           None \<Rightarrow> Inl UnboundLocalError
         | Some msk \<Rightarrow>
             (let mfalse = truncation_points msk (sub_rcond u);
                  s1 = s\<lparr>threshold_in := sub_threshold u, rcond := sub_rcond u\<rparr>
              in if mfalse \<noteq> [] then
                   (let inc = take (hd mfalse) (included s) in
                    case fit cfg inc of
                      Inl e \<Rightarrow> Inl e
                    | Inr refit \<Rightarrow>
                        Inr (Done (s1\<lparr>included := inc, fit_log := fit_log s @ [inc]\<rparr>) refit))
                 else Inr (Done s1 model)))"

subsection \<open>One pass of the outer loop (lines 43-175)\<close>

text \<open>Lines 139-163: the branch \<open>elif dropped\<close>; returns the state and \<open>changed\<close>.\<close>

definition dropped_branch :: "config \<Rightarrow> state \<Rightarrow> bool \<Rightarrow> fitted \<Rightarrow> state \<times> bool" where
  "dropped_branch cfg s changed model =
     (if threshold_in s = 1 / 10 \<and> onetime s then
        (s\<lparr>threshold_in := caller_threshold_in cfg, included := [], included_pvals := [],
           included_rvals := [], onetime := False\<rparr>, True)
      else if max_vars cfg < int (length (included s)) \<and> threshold_in s \<noteq> 1 / 100 \<and> \<not> lower s then
        (s\<lparr>threshold_in := lower_threshold (threshold_in s), included := [],
           included_pvals := [], included_rvals := []\<rparr>, True)
      else if min_vars cfg \<le> int (length (included s)) \<and> lower s then
        (if 9 / 10 < rvalue model then (s, False) else (s, changed))
      else (s, changed))"

text \<open>Lines 165-175: the stall handling.\<close>

definition stall_branch :: "config \<Rightarrow> state \<Rightarrow> bool \<Rightarrow> fitted \<Rightarrow> step" where
  "stall_branch cfg s changed model =
     (if \<not> changed then
        (if int (length (included s)) < min_vars cfg \<and> threshold_in s \<noteq> 1 / 10 then
           Continue (s\<lparr>threshold_in := raise_threshold (threshold_in s), included := [],
                       included_pvals := [], included_rvals := [], lower := True\<rparr>)
         else Done s model)
      else Continue s)"

text \<open>Lines 78-175, after the backward step.\<close>

definition decide :: "config \<Rightarrow> state \<Rightarrow> bool \<Rightarrow> fitted \<Rightarrow> error + step" where
  "decide cfg s changed model =
     (if min_vars cfg \<le> int (length (included s)) \<and> int (length (included s)) \<le> max_vars cfg
         \<and> \<not> changed then Inr (Done s model)
      else if max_vars cfg < int (length (included s)) \<and> \<not> dropped s then
        over_capacity cfg s model
      else if dropped s then
        (case dropped_branch cfg s changed model of
           (s1, changed1) \<Rightarrow> Inr (stall_branch cfg s1 changed1 model))
      else Inr (stall_branch cfg s changed model))"

definition forward_backward :: "config \<Rightarrow> state \<Rightarrow> error + (state \<times> bool \<times> fitted)" where
  "forward_backward cfg s =
     (case forward_step cfg s of
        Inl e \<Rightarrow> Inl e
      | Inr (s1, changed) \<Rightarrow> backward_step cfg s1 changed)"

definition outer_pass :: "config \<Rightarrow> state \<Rightarrow> error + step" where
  "outer_pass cfg s =
     (case forward_backward cfg s of
        Inl e \<Rightarrow> Inl e
      | Inr (s2, changed, model) \<Rightarrow> decide cfg s2 changed model)"

subsection \<open>The loop and the entry point\<close>

text \<open>\<open>while True\<close>: the loop has no bound, so not returning is the value \<open>None\<close>.\<close>

partial_function (option) outer_loop :: "config \<Rightarrow> state \<Rightarrow> (error + state \<times> fitted) option" where
  "outer_loop cfg s =
     (case outer_pass cfg s of
        Inl e \<Rightarrow> Some (Inl e)
      | Inr (Continue s') \<Rightarrow> outer_loop cfg s'
      | Inr (Done s' model) \<Rightarrow> Some (Inr (s', model)))"

text \<open>The state at the head of the loop after \<open>n\<close> passes that continued.\<close>

fun state_after :: "config \<Rightarrow> nat \<Rightarrow> state \<Rightarrow> state option" where
  "state_after cfg 0 s = Some s"
| "state_after cfg (Suc n) s =
     (case outer_pass cfg s of
        Inr (Continue s') \<Rightarrow> state_after cfg n s'
      | _ \<Rightarrow> None)"

text \<open>
  What an invocation returns: \<open>included\<close>, \<open>model\<close>, \<open>threshold_in\<close> (the last two
  \<open>None\<close> for \<open>np.nan\<close>), with the designs fitted on the way.
\<close>

record result =
  selected :: "feature list"
  final_model :: "fitted option"
  final_threshold :: "real option"
  fits_performed :: "feature list list"

text \<open>
  The entry point. The target \<open>y\<close> enters only through the NaN test of lines 38-39 (a
  \<open>None\<close> entry is a NaN) and through the fitter.
\<close>

definition stepwise_selection ::
  "(feature list \<Rightarrow> error + fitted) \<Rightarrow> feature list \<Rightarrow> (feature set \<Rightarrow> feature list) \<Rightarrow>
   real option list \<Rightarrow> feature list \<Rightarrow> real \<Rightarrow> real \<Rightarrow> int \<Rightarrow> int \<Rightarrow> (error + result) option" where
  "stepwise_selection X_fit X_columns order y initial_list thr_in thr_out maxv minv =
     (if None \<in> set y then
        Some (Inr \<lparr>selected = [], final_model = None, final_threshold = None,
                   fits_performed = []\<rparr>)
      else
        (case outer_loop
                \<lparr>fit = X_fit, columns = X_columns, set_order = order,
                 caller_threshold_in = thr_in, threshold_out = thr_out,
                 max_vars = maxv, min_vars = minv\<rparr>
                (init_state initial_list) of
           None \<Rightarrow> None
         | Some (Inl e) \<Rightarrow> Some (Inl e)
         | Some (Inr (s, model)) \<Rightarrow>
             Some (Inr \<lparr>selected = included s, final_model = Some model,
                        final_threshold = Some (threshold_in s),
                        fits_performed = fit_log s\<rparr>)))"

subsection \<open>Observations on a pass\<close>

text \<open>
  The one-time reset of lines 140-148 is the only assignment to \<open>onetime\<close>: it fires in a
  pass exactly when the pass continues with \<open>onetime\<close> switched off.
\<close>

definition reset_fires :: "config \<Rightarrow> state \<Rightarrow> bool" where
  "reset_fires cfg s =
     (case outer_pass cfg s of
        Inr (Continue s') \<Rightarrow> onetime s \<and> \<not> onetime s'
      | _ \<Rightarrow> False)"

text \<open>\<open>len(included)\<close> after the backward step of the pass that starts in \<open>s\<close>.\<close>

definition size_after_backward :: "config \<Rightarrow> state \<Rightarrow> nat option" where
  "size_after_backward cfg s =
     (case forward_backward cfg s of Inl e \<Rightarrow> None | Inr (s2, c2, m) \<Rightarrow> Some (length (included s2)))"

text \<open>
  A threshold is in range: between 0.01 and 0.10, and a whole number of hundredths.
\<close>

definition threshold_ok :: "real \<Rightarrow> bool" where
  "threshold_ok t \<longleftrightarrow> 1 / 100 \<le> t \<and> t \<le> 1 / 10 \<and> of_int \<lfloor>t * 100\<rfloor> = t * 100"

text \<open>The threshold and the selection of a returned triple.\<close>

definition returned_threshold :: "(error + result) option \<Rightarrow> real option" where
  "returned_threshold r = (case r of Some (Inr x) \<Rightarrow> final_threshold x | _ \<Rightarrow> None)"

definition returned_selection :: "(error + result) option \<Rightarrow> feature list option" where
  "returned_selection r = (case r of Some (Inr x) \<Rightarrow> Some (selected x) | _ \<Rightarrow> None)"

text \<open>The two tracks run parallel to \<open>included\<close>.\<close>

definition tracks_aligned :: "state \<Rightarrow> bool" where
  "tracks_aligned s \<longleftrightarrow>
     length (included_pvals s) = length (included s) \<and>
     length (included_rvals s) = length (included s)"

text \<open>
  The values the tightening assignment of line 85 gave to \<open>threshold_in\<close> in a finished
  sub-loop: the whole history, without its last entry when the loop ended by raising the
  threshold again (lines 122-125: the quality branch with \<open>psize != 13\<close>).
\<close>

definition tightened :: "sub_state \<Rightarrow> real list" where
  "tightened u =
     (if sub_rcond u \<and> sub_psize u \<noteq> 13 then butlast (sub_trace u) else sub_trace u)"

text \<open>
  The index at which the over-capacity handling cuts \<open>included\<close>, read off the tracks:
  on the size branch (\<open>rcond\<close> unset) the length of the leading run of the p-value track
  below the final threshold; on the quality branch (\<open>rcond\<close> set) the first index above 3
  whose r-value is not below 0.9. An index beyond the track means no cut.
\<close>

definition cut_index :: "sub_state \<Rightarrow> real list \<Rightarrow> real list \<Rightarrow> nat" where
  "cut_index u pvals rvals =
     (if sub_rcond u then 4 + length (takeWhile (\<lambda>r. r < 9 / 10) (drop 4 rvals))
      else length (takeWhile (\<lambda>p. p < sub_threshold u) pvals))"

text \<open>
  What the forward step records for a candidate \<open>c\<close>: the p-value of \<open>c\<close> and the
  r-value in the model fitted on \<open>included + [c]\<close>.
\<close>

definition forward_pvalue :: "config \<Rightarrow> state \<Rightarrow> feature \<Rightarrow> real" where
  "forward_pvalue cfg s c =
     (case fit cfg (included s @ [c]) of Inl e \<Rightarrow> 0 | Inr model \<Rightarrow> pvalue model c)"

definition forward_rvalue :: "config \<Rightarrow> state \<Rightarrow> feature \<Rightarrow> real" where
  "forward_rvalue cfg s c =
     (case fit cfg (included s @ [c]) of Inl e \<Rightarrow> 0 | Inr model \<Rightarrow> rvalue model)"

subsection \<open>Concrete inputs\<close>

text \<open>A set iterated in the order in which \<open>names\<close> lists its elements.\<close>

definition listed_order :: "feature list \<Rightarrow> feature set \<Rightarrow> feature list" where
  "listed_order names A = filter (\<lambda>c. c \<in> A) names"

text \<open>
  A fitter for uncorrelated columns: the p-value of a column does not depend on the
  design, the coefficient of determination depends on the number of columns.
\<close>

definition orthogonal_fit ::
  "(feature \<Rightarrow> real) \<Rightarrow> (nat \<Rightarrow> real) \<Rightarrow> feature list \<Rightarrow> error + fitted" where
  "orthogonal_fit pv r2 cols = Inr \<lparr>pvalue = pv, rsquared = r2 (length cols)\<rparr>"

text \<open>
  A fitter given by a table: for each design, the p-value of every column and the
  coefficient of determination. A design that is not in the table makes the fitter raise.
\<close>

definition table_fit ::
  "(feature list \<times> (feature \<times> real) list \<times> real) list \<Rightarrow> feature list \<Rightarrow> error + fitted" where
  "table_fit tbl cols =
     (case map_of tbl cols of
        None \<Rightarrow> Inl FitError
      | Some (ps, r2) \<Rightarrow>
          Inr \<lparr>pvalue = (\<lambda>c. case map_of ps c of None \<Rightarrow> 1 | Some p \<Rightarrow> p), rsquared = r2\<rparr>)"

text \<open>
  Input A: two columns. \<open>a\<close> enters first, \<open>b\<close> second; with both in the model the
  p-value of \<open>a\<close> rises to 0.5 and \<open>a\<close> is dropped.
\<close>

definition fit_A :: "feature list \<Rightarrow> error + fitted" where
  "fit_A = table_fit
     [([], [], 0),
      ([''a''], [(''a'', 1 / 100)], 1 / 4),
      ([''b''], [(''b'', 3 / 100)], 1 / 4),
      ([''a'', ''b''], [(''a'', 1 / 2), (''b'', 2 / 100)], 1 / 4),
      ([''b'', ''a''], [(''a'', 1 / 2), (''b'', 2 / 100)], 1 / 4)]"

definition cfg_A :: "real \<Rightarrow> config" where
  "cfg_A t = \<lparr>fit = fit_A, columns = [''a'', ''b''], set_order = listed_order [''a'', ''b''],
     caller_threshold_in = t, threshold_out = 1 / 10, max_vars = 12, min_vars = 1\<rparr>"

definition state_A1 :: state where
  "state_A1 = \<lparr>included = [''a''], included_pvals = [1 / 100], included_rvals = [1 / 2],
     threshold_in = 1 / 10, lower = False, rcond = False, dropped = False, onetime = True,
     fit_log = [[''a''], [''b''], [''a'']]\<rparr>"

text \<open>
  Input A, second pass: \<open>state_A1f\<close> after the forward step (\<open>b\<close> added),
  \<open>state_A2\<close> after the backward step (\<open>a\<close> dropped).
\<close>

definition state_A1f :: state where
  "state_A1f = \<lparr>included = [''a'', ''b''], included_pvals = [1 / 100, 2 / 100],
     included_rvals = [1 / 2, 1 / 2],
     threshold_in = 1 / 10, lower = False, rcond = False, dropped = False, onetime = True,
     fit_log = [[''a''], [''b''], [''a''], [''a'', ''b'']]\<rparr>"

definition state_A2 :: state where
  "state_A2 = \<lparr>included = [''b''], included_pvals = [2 / 100], included_rvals = [1 / 2],
     threshold_in = 1 / 10, lower = False, rcond = False, dropped = True, onetime = True,
     fit_log = [[''a''], [''b''], [''a''], [''a'', ''b''], [''a'', ''b'']]\<rparr>"

text \<open>
  Input A after the forward step of the first pass (\<open>a\<close> added), the fits being those
  of the candidates in iteration order.
\<close>

definition state_A0f :: "feature list list \<Rightarrow> state" where
  "state_A0f fits = \<lparr>included = [''a''], included_pvals = [1 / 100], included_rvals = [1 / 2],
     threshold_in = 1 / 10, lower = False, rcond = False, dropped = False, onetime = True,
     fit_log = fits\<rparr>"

text \<open>
  Input A, run again from its result \<open>[b]\<close>: the state after the backward step of the
  first pass.
\<close>

definition state_Ar :: state where
  "state_Ar = \<lparr>included = [''b''], included_pvals = [], included_rvals = [],
     threshold_in = 1 / 10, lower = False, rcond = False, dropped = False, onetime = True,
     fit_log = [[''b'', ''a''], [''b'']]\<rparr>"

text \<open>
  Input B: two columns that both enter, with \<open>max_vars = 1\<close>: the second pass is over
  capacity, and the sub-loop tightens the threshold until one feature is left.
  \<open>state_B1\<close> is the state after the first pass, \<open>state_B2\<close> the state after the
  backward step of the second pass, \<open>state_B3\<close> the state on return.
\<close>

definition fit_B :: "feature list \<Rightarrow> error + fitted" where
  "fit_B = table_fit
     [([], [], 0),
      ([''a''], [(''a'', 1 / 100)], 1 / 4),
      ([''b''], [(''b'', 5 / 100)], 1 / 4),
      ([''a'', ''b''], [(''a'', 1 / 100), (''b'', 5 / 100)], 1 / 4)]"

definition cfg_B :: "real \<Rightarrow> config" where
  "cfg_B t = \<lparr>fit = fit_B, columns = [''a'', ''b''], set_order = listed_order [''a'', ''b''],
     caller_threshold_in = t, threshold_out = 1 / 10, max_vars = 1, min_vars = 1\<rparr>"

definition state_B1 :: state where
  "state_B1 = \<lparr>included = [''a''], included_pvals = [1 / 100], included_rvals = [1 / 2],
     threshold_in = 1 / 10, lower = False, rcond = False, dropped = False, onetime = True,
     fit_log = [[''a''], [''b''], [''a'']]\<rparr>"

definition state_B2 :: state where
  "state_B2 = \<lparr>included = [''a'', ''b''], included_pvals = [1 / 100, 5 / 100],
     included_rvals = [1 / 2, 1 / 2],
     threshold_in = 1 / 10, lower = False, rcond = False, dropped = False, onetime = True,
     fit_log = [[''a''], [''b''], [''a''], [''a'', ''b''], [''a'', ''b'']]\<rparr>"

definition state_B3 :: state where
  "state_B3 = \<lparr>included = [''a''], included_pvals = [1 / 100, 5 / 100],
     included_rvals = [1 / 2, 1 / 2],
     threshold_in = 2 / 100, lower = False, rcond = False, dropped = False, onetime = True,
     fit_log = [[''a''], [''b''], [''a''], [''a'', ''b''], [''a'', ''b''], [''a'']]\<rparr>"

text \<open>
  Input C: five columns with p-values 0.001 to 0.005 and \<open>max_vars = 4\<close>; the fifth
  column lifts the r-value to 0.9. \<open>state_C4\<close> is the state after four passes,
  \<open>state_C5\<close> after the backward step of the fifth, \<open>state_C6\<close> on return.
\<close>

definition pvalue_C :: "feature \<Rightarrow> real" where
  "pvalue_C c =
     (case map_of [(''a'', 1 / 1000), (''b'', 2 / 1000), (''c'', 3 / 1000), (''d'', 4 / 1000),
                   (''e'', 5 / 1000)] c of
        None \<Rightarrow> 1 | Some p \<Rightarrow> p)"

definition fit_C :: "feature list \<Rightarrow> error + fitted" where
  "fit_C = orthogonal_fit pvalue_C (\<lambda>n. if n = 5 then 81 / 100 else 1 / 4)"

definition cfg_C :: config where
  "cfg_C = \<lparr>fit = fit_C, columns = [''a'', ''b'', ''c'', ''d'', ''e''],
     set_order = listed_order [''a'', ''b'', ''c'', ''d'', ''e''],
     caller_threshold_in = 5 / 100, threshold_out = 1 / 10, max_vars = 4, min_vars = 4\<rparr>"

definition state_C4 :: state where
  "state_C4 =
     \<lparr>included = [''a'', ''b'', ''c'', ''d''],
      included_pvals = [1 / 1000, 2 / 1000, 3 / 1000, 4 / 1000],
      included_rvals = [1 / 2, 1 / 2, 1 / 2, 1 / 2],
      threshold_in = 1 / 10, lower = False, rcond = False, dropped = False, onetime = True,
      fit_log =
        [[''a''], [''b''], [''c''], [''d''], [''e''], [''a''], [''a'', ''b''], [''a'', ''c''],
         [''a'', ''d''], [''a'', ''e''], [''a'', ''b''], [''a'', ''b'', ''c''],
         [''a'', ''b'', ''d''], [''a'', ''b'', ''e''], [''a'', ''b'', ''c''],
         [''a'', ''b'', ''c'', ''d''], [''a'', ''b'', ''c'', ''e''],
         [''a'', ''b'', ''c'', ''d'']]\<rparr>"

definition state_C5 :: state where
  "state_C5 =
     \<lparr>included = [''a'', ''b'', ''c'', ''d'', ''e''],
      included_pvals = [1 / 1000, 2 / 1000, 3 / 1000, 4 / 1000, 5 / 1000],
      included_rvals = [1 / 2, 1 / 2, 1 / 2, 1 / 2, 9 / 10],
      threshold_in = 1 / 10, lower = False, rcond = False, dropped = False, onetime = True,
      fit_log =
        [[''a''], [''b''], [''c''], [''d''], [''e''], [''a''], [''a'', ''b''], [''a'', ''c''],
         [''a'', ''d''], [''a'', ''e''], [''a'', ''b''], [''a'', ''b'', ''c''],
         [''a'', ''b'', ''d''], [''a'', ''b'', ''e''], [''a'', ''b'', ''c''],
         [''a'', ''b'', ''c'', ''d''], [''a'', ''b'', ''c'', ''e''],
         [''a'', ''b'', ''c'', ''d''], [''a'', ''b'', ''c'', ''d'', ''e''],
         [''a'', ''b'', ''c'', ''d'', ''e'']]\<rparr>"

definition state_C6 :: state where
  "state_C6 =
     \<lparr>included = [''a'', ''b'', ''c'', ''d''],
      included_pvals = [1 / 1000, 2 / 1000, 3 / 1000, 4 / 1000, 5 / 1000],
      included_rvals = [1 / 2, 1 / 2, 1 / 2, 1 / 2, 9 / 10],
      threshold_in = 2 / 100, lower = False, rcond = True, dropped = False, onetime = True,
      fit_log =
        [[''a''], [''b''], [''c''], [''d''], [''e''], [''a''], [''a'', ''b''], [''a'', ''c''],
         [''a'', ''d''], [''a'', ''e''], [''a'', ''b''], [''a'', ''b'', ''c''],
         [''a'', ''b'', ''d''], [''a'', ''b'', ''e''], [''a'', ''b'', ''c''],
         [''a'', ''b'', ''c'', ''d''], [''a'', ''b'', ''c'', ''e''],
         [''a'', ''b'', ''c'', ''d''], [''a'', ''b'', ''c'', ''d'', ''e''],
         [''a'', ''b'', ''c'', ''d'', ''e''], [''a'', ''b'', ''c'', ''d'']]\<rparr>"

text \<open>
  Input D: six columns with p-values 0.001 to 0.006 and \<open>max_vars = 5\<close>; the r-value is
  0.9 with five columns and 0.5 otherwise. \<open>state_D5\<close> is the state after five passes,
  \<open>state_D6\<close> after the backward step of the sixth, \<open>state_D7\<close> on return.
\<close>

definition pvalue_D :: "feature \<Rightarrow> real" where
  "pvalue_D c =
     (case map_of [(''a'', 1 / 1000), (''b'', 2 / 1000), (''c'', 3 / 1000), (''d'', 4 / 1000),
                   (''e'', 5 / 1000), (''f'', 6 / 1000)] c of
        None \<Rightarrow> 1 | Some p \<Rightarrow> p)"

definition fit_D :: "feature list \<Rightarrow> error + fitted" where
  "fit_D = orthogonal_fit pvalue_D (\<lambda>n. if n = 5 then 81 / 100 else 1 / 4)"

definition cfg_D :: config where
  "cfg_D = \<lparr>fit = fit_D, columns = [''a'', ''b'', ''c'', ''d'', ''e'', ''f''],
     set_order = listed_order [''a'', ''b'', ''c'', ''d'', ''e'', ''f''],
     caller_threshold_in = 5 / 100, threshold_out = 1 / 10, max_vars = 5, min_vars = 4\<rparr>"

definition state_D5 :: state where
  "state_D5 =
     \<lparr>included = [''a'', ''b'', ''c'', ''d'', ''e''],
      included_pvals = [1 / 1000, 2 / 1000, 3 / 1000, 4 / 1000, 5 / 1000],
      included_rvals = [1 / 2, 1 / 2, 1 / 2, 1 / 2, 9 / 10],
      threshold_in = 1 / 10, lower = False, rcond = False, dropped = False, onetime = True,
      fit_log =
        [[''a''], [''b''], [''c''], [''d''], [''e''], [''f''], [''a''], [''a'', ''b''],
         [''a'', ''c''], [''a'', ''d''], [''a'', ''e''], [''a'', ''f''], [''a'', ''b''],
         [''a'', ''b'', ''c''], [''a'', ''b'', ''d''], [''a'', ''b'', ''e''],
         [''a'', ''b'', ''f''], [''a'', ''b'', ''c''], [''a'', ''b'', ''c'', ''d''],
         [''a'', ''b'', ''c'', ''e''], [''a'', ''b'', ''c'', ''f''],
         [''a'', ''b'', ''c'', ''d''], [''a'', ''b'', ''c'', ''d'', ''e''],
         [''a'', ''b'', ''c'', ''d'', ''f''], [''a'', ''b'', ''c'', ''d'', ''e'']]\<rparr>"

definition state_D6 :: state where
  "state_D6 =
     \<lparr>included = [''a'', ''b'', ''c'', ''d'', ''e'', ''f''],
      included_pvals = [1 / 1000, 2 / 1000, 3 / 1000, 4 / 1000, 5 / 1000, 6 / 1000],
      included_rvals = [1 / 2, 1 / 2, 1 / 2, 1 / 2, 9 / 10, 1 / 2],
      threshold_in = 1 / 10, lower = False, rcond = False, dropped = False, onetime = True,
      fit_log =
        [[''a''], [''b''], [''c''], [''d''], [''e''], [''f''], [''a''], [''a'', ''b''],
         [''a'', ''c''], [''a'', ''d''], [''a'', ''e''], [''a'', ''f''], [''a'', ''b''],
         [''a'', ''b'', ''c''], [''a'', ''b'', ''d''], [''a'', ''b'', ''e''],
         [''a'', ''b'', ''f''], [''a'', ''b'', ''c''], [''a'', ''b'', ''c'', ''d''],
         [''a'', ''b'', ''c'', ''e''], [''a'', ''b'', ''c'', ''f''],
         [''a'', ''b'', ''c'', ''d''], [''a'', ''b'', ''c'', ''d'', ''e''],
         [''a'', ''b'', ''c'', ''d'', ''f''], [''a'', ''b'', ''c'', ''d'', ''e''],
         [''a'', ''b'', ''c'', ''d'', ''e'', ''f''],
         [''a'', ''b'', ''c'', ''d'', ''e'', ''f'']]\<rparr>"

definition state_D7 :: state where
  "state_D7 =
     \<lparr>included = [''a'', ''b'', ''c'', ''d''],
      included_pvals = [1 / 1000, 2 / 1000, 3 / 1000, 4 / 1000, 5 / 1000, 6 / 1000],
      included_rvals = [1 / 2, 1 / 2, 1 / 2, 1 / 2, 9 / 10, 1 / 2],
      threshold_in = 2 / 100, lower = False, rcond = True, dropped = False, onetime = True,
      fit_log =
        [[''a''], [''b''], [''c''], [''d''], [''e''], [''f''], [''a''], [''a'', ''b''],
         [''a'', ''c''], [''a'', ''d''], [''a'', ''e''], [''a'', ''f''], [''a'', ''b''],
         [''a'', ''b'', ''c''], [''a'', ''b'', ''d''], [''a'', ''b'', ''e''],
         [''a'', ''b'', ''f''], [''a'', ''b'', ''c''], [''a'', ''b'', ''c'', ''d''],
         [''a'', ''b'', ''c'', ''e''], [''a'', ''b'', ''c'', ''f''],
         [''a'', ''b'', ''c'', ''d''], [''a'', ''b'', ''c'', ''d'', ''e''],
         [''a'', ''b'', ''c'', ''d'', ''f''], [''a'', ''b'', ''c'', ''d'', ''e''],
         [''a'', ''b'', ''c'', ''d'', ''e'', ''f''],
         [''a'', ''b'', ''c'', ''d'', ''e'', ''f''], [''a'', ''b'', ''c'', ''d'']]\<rparr>"

text \<open>
  Input E: two columns that both enter, \<open>a\<close> with p-value 0.05 and then \<open>b\<close> with
  0.01, and \<open>max_vars = 1\<close>. \<open>state_E1\<close> is the state after the first pass,
  \<open>state_E2\<close> the state after the backward step of the second.
\<close>

definition fit_E :: "feature list \<Rightarrow> error + fitted" where
  "fit_E = table_fit
     [([], [], 0),
      ([''a''], [(''a'', 5 / 100)], 1 / 4),
      ([''b''], [(''b'', 6 / 100)], 1 / 4),
      ([''a'', ''b''], [(''a'', 5 / 100), (''b'', 1 / 100)], 1 / 4)]"

definition cfg_E :: config where
  "cfg_E = \<lparr>fit = fit_E, columns = [''a'', ''b''], set_order = listed_order [''a'', ''b''],
     caller_threshold_in = 5 / 100, threshold_out = 1 / 10, max_vars = 1, min_vars = 1\<rparr>"

definition state_E1 :: state where
  "state_E1 = \<lparr>included = [''a''], included_pvals = [5 / 100], included_rvals = [1 / 2],
     threshold_in = 1 / 10, lower = False, rcond = False, dropped = False, onetime = True,
     fit_log = [[''a''], [''b''], [''a'']]\<rparr>"

definition state_E2 :: state where
  "state_E2 = \<lparr>included = [''a'', ''b''], included_pvals = [5 / 100, 1 / 100],
     included_rvals = [1 / 2, 1 / 2],
     threshold_in = 1 / 10, lower = False, rcond = False, dropped = False, onetime = True,
     fit_log = [[''a''], [''b''], [''a''], [''a'', ''b''], [''a'', ''b'']]\<rparr>"

text \<open>Input E on return: the state \<open>state_E2\<close> with the raised threshold and \<open>rcond\<close> set.\<close>

definition state_E3 :: state where
  "state_E3 = \<lparr>included = [''a'', ''b''], included_pvals = [5 / 100, 1 / 100],
     included_rvals = [1 / 2, 1 / 2],
     threshold_in = 6 / 100, lower = False, rcond = True, dropped = False, onetime = True,
     fit_log = [[''a''], [''b''], [''a''], [''a'', ''b''], [''a'', ''b'']]\<rparr>"

text \<open>
  Input F: the single column \<open>a\<close>, not significant (p-value 0.5), to be passed in
  \<open>initial_list\<close>.
\<close>

definition fit_F :: "feature list \<Rightarrow> error + fitted" where
  "fit_F = table_fit [([], [], 0), ([''a''], [(''a'', 1 / 2)], 1 / 100)]"

text \<open>
  Input T: two columns carrying the same data. Alone each has the p-value 0.01;
  together neither is significant.
\<close>

definition fit_T :: "feature list \<Rightarrow> error + fitted" where
  "fit_T = table_fit
     [([], [], 0),
      ([''a''], [(''a'', 1 / 100)], 1 / 4),
      ([''b''], [(''b'', 1 / 100)], 1 / 4),
      ([''a'', ''b''], [(''a'', 1 / 2), (''b'', 1 / 2)], 1 / 4),
      ([''b'', ''a''], [(''a'', 1 / 2), (''b'', 1 / 2)], 1 / 4)]"

section \<open>Properties\<close>

subsection \<open>Evaluation\<close>

lemma sqrt_lt_09: "sqrt x < 9 / 10 \<longleftrightarrow> x < 81 / 100"
proof -
  have "sqrt (81 / 100) = 9 / 10" by (rule real_sqrt_unique) (simp_all add: power2_eq_square)
  then show ?thesis using real_sqrt_less_iff [of x "81 / 100"] by (simp only:)
qed

lemma sqrt_gt_09: "9 / 10 < sqrt x \<longleftrightarrow> 81 / 100 < x"
proof -
  have "sqrt (81 / 100) = 9 / 10" by (rule real_sqrt_unique) (simp_all add: power2_eq_square)
  then show ?thesis using real_sqrt_less_iff [of "81 / 100" x] by (simp only:)
qed

lemma sqrt_cmp:
  "sqrt x * 10 < 9 \<longleftrightarrow> x * 100 < 81" "9 < sqrt x * 10 \<longleftrightarrow> 81 < x * 100"
  using sqrt_lt_09 [of x] sqrt_gt_09 [of x] by simp_all

lemmas pass_defs =
  outer_pass_def forward_backward_def forward_step_def backward_step_def decide_def
  dropped_branch_def stall_branch_def excluded_of_def

lemmas eval_defs =
  pass_defs init_state_def table_fit_def listed_order_def series_min_def series_max_def
  argmin_def argmax_def first_index_def pop_def remove_at_def rvalue_def py_round3_def round_half_even_def
  over_capacity_def truncation_points_def sub_init_def prefix_size_def lower_threshold_def raise_threshold_def np_round2_def
  tighten_loop.simps tighten_body_def sqrt_cmp Let_def

subsection \<open>What the two steps of a pass do\<close>

lemma first_index_less: "\<exists>x\<in>set xs. P x \<Longrightarrow> first_index P xs < length xs"
  unfolding first_index_def by (induction xs) auto

lemma first_index_holds: "\<exists>x\<in>set xs. P x \<Longrightarrow> P (xs ! first_index P xs)"
  unfolding first_index_def by (induction xs) auto

lemma first_index_least: "i < first_index P xs \<Longrightarrow> \<not> P (xs ! i)"
  unfolding first_index_def by (metis nth_length_takeWhile takeWhile_nth nth_mem set_takeWhileD)

lemma remove1_first_index:
  "x \<in> set xs \<Longrightarrow> remove1 x xs = remove_at (first_index (\<lambda>c. c = x) xs) xs"
  unfolding first_index_def remove_at_def by (induction xs) auto

lemma argmax_less: "ps \<noteq> [] \<Longrightarrow> argmax ps < length ps"
  unfolding argmax_def by (rule first_index_less) (metis Max_in List.finite_set set_empty)

lemma argmax_nth: "ps \<noteq> [] \<Longrightarrow> ps ! argmax ps = Max (set ps)"
  unfolding argmax_def
  using first_index_holds [of ps "\<lambda>p. p = Max (set ps)"] by (metis Max_in List.finite_set set_empty)

lemma argmin_less: "ps \<noteq> [] \<Longrightarrow> argmin ps < length ps"
  unfolding argmin_def by (rule first_index_less) (metis Min_in List.finite_set set_empty)

lemma argmin_nth: "ps \<noteq> [] \<Longrightarrow> ps ! argmin ps = Min (set ps)"
  unfolding argmin_def
  using first_index_holds [of ps "\<lambda>p. p = Min (set ps)"] by (metis Min_in List.finite_set set_empty)

lemma forward_step_facts:
  assumes "forward_step cfg s = Inr (s1, c)"
  shows "threshold_in s1 = threshold_in s \<and> lower s1 = lower s \<and> rcond s1 = rcond s \<and>
         dropped s1 = dropped s \<and> onetime s1 = onetime s \<and>
         (if c then \<exists>f p r. included s1 = included s @ [f] \<and>
                     included_pvals s1 = included_pvals s @ [p] \<and>
                     included_rvals s1 = included_rvals s @ [r] \<and> p < threshold_in s
          else included s1 = included s \<and> included_pvals s1 = included_pvals s \<and>
               included_rvals s1 = included_rvals s)"
  using assms unfolding forward_step_def Let_def
  by (auto split: sum.splits option.splits if_splits)

lemma backward_step_facts:
  assumes "backward_step cfg s1 c = Inr (s2, c2, m)"
  shows "threshold_in s2 = threshold_in s1 \<and> lower s2 = lower s1 \<and> rcond s2 = rcond s1 \<and>
         onetime s2 = onetime s1 \<and> fit cfg (included s1) = Inr m \<and>
         fit_log s2 = fit_log s1 @ [included s1] \<and>
         ((included s2 = included s1 \<and> included_pvals s2 = included_pvals s1 \<and>
           included_rvals s2 = included_rvals s1 \<and> dropped s2 = dropped s1 \<and> c2 = c \<and>
           (\<forall>f\<in>set (included s1). pvalue m f \<le> threshold_out cfg)) \<or>
          (dropped s2 \<and> c2 \<and>
           (\<exists>i. i < length (included s1) \<and> i < length (included_pvals s1) \<and>
                i < length (included_rvals s1) \<and>
                included s2 = remove_at i (included s1) \<and>
                included_pvals s2 = remove_at i (included_pvals s1) \<and>
                included_rvals s2 = remove_at i (included_rvals s1) \<and>
                threshold_out cfg < pvalue m (included s1 ! i) \<and>
                (\<forall>f\<in>set (included s1). pvalue m f \<le> pvalue m (included s1 ! i)))))"
proof -
  from assms have fm: "fit cfg (included s1) = Inr m"
    unfolding backward_step_def Let_def
    by (auto split: sum.splits option.splits if_splits)
  let ?pv = "map (pvalue m) (included s1)"
  define M where "M = Max (set ?pv)"
  define w where "w = included s1 ! argmax ?pv"
  define i where "i = first_index (\<lambda>c. c = w) (included s1)"
  let ?s = "s1\<lparr>fit_log := fit_log s1 @ [included s1]\<rparr>"
  have eq: "backward_step cfg s1 c =
      (if included s1 = [] \<or> \<not> threshold_out cfg < M then Inr (?s, c, m)
       else if i < length (included_pvals s1) \<and> i < length (included_rvals s1) then
         Inr (?s\<lparr>dropped := True, included_pvals := remove_at i (included_pvals s1),
                 included_rvals := remove_at i (included_rvals s1),
                 included := remove1 w (included s1)\<rparr>, True, m)
       else Inl IndexError)"
    by (simp add: backward_step_def Let_def series_max_def fm M_def w_def i_def pop_def)
  show ?thesis
  proof (cases "included s1 = [] \<or> \<not> threshold_out cfg < M")
    case True
    have "pvalue m f \<le> M" if "f \<in> set (included s1)" for f
      unfolding M_def using that by simp
    with True have le: "\<forall>f\<in>set (included s1). pvalue m f \<le> threshold_out cfg"
      by (cases "included s1 = []") (auto simp: not_less intro: order_trans)
    from True assms eq have "s2 = ?s" "c2 = c" by simp_all
    with le fm show ?thesis by simp
  next
    case False
    then have ne: "?pv \<noteq> []" and gt: "threshold_out cfg < M" by simp_all
    have mx: "\<forall>f\<in>set (included s1). pvalue m f \<le> M" unfolding M_def by simp
    have al: "argmax ?pv < length (included s1)" using argmax_less [OF ne] by simp
    then have win: "w \<in> set (included s1)" unfolding w_def by simp
    then have il: "i < length (included s1)" unfolding i_def by (intro first_index_less) auto
    have "included s1 ! i = w"
      unfolding i_def using first_index_holds [of "included s1" "\<lambda>c. c = w"] win by auto
    moreover have "pvalue m w = M"
      unfolding w_def M_def using argmax_nth [OF ne] al by simp
    ultimately have pw: "pvalue m (included s1 ! i) = M" by simp
    from False assms eq
    have r: "i < length (included_pvals s1)" "i < length (included_rvals s1)"
         "s2 = ?s\<lparr>dropped := True, included_pvals := remove_at i (included_pvals s1),
                 included_rvals := remove_at i (included_rvals s1),
                 included := remove1 w (included s1)\<rparr>" "c2"
      by (auto split: if_splits)
    have "included s2 = remove_at i (included s1)"
      using r(3) remove1_first_index [OF win] unfolding i_def by simp
    with r il pw gt mx fm show ?thesis
      by (intro conjI disjI2 exI [of _ i]) simp_all
  qed
qed

subsection \<open>The NaN test\<close>

text \<open>
  C2. If the target holds a missing value, the invocation returns the empty selection
  with the NaN sentinels for the model and the threshold, and no fit has been performed,
  whatever the other arguments are.
\<close>

theorem nan_target_returns_sentinels:
  assumes "None \<in> set y"
  shows "stepwise_selection X_fit X_columns order y initial_list thr_in thr_out maxv minv =
           Some (Inr \<lparr>selected = [], final_model = None, final_threshold = None,
                      fits_performed = []\<rparr>)"
  using assms by (simp add: stepwise_selection_def)

theorem nan_target_returns_sentinels_witness:
  "None \<in> set [Some 1, None, Some (3 :: real)] \<and>
   stepwise_selection (table_fit []) [''a''] (listed_order [''a'']) [Some 1, None, Some 3]
       [''a''] (5 / 100) (1 / 10) 12 4 =
     Some (Inr \<lparr>selected = [], final_model = None, final_threshold = None,
                fits_performed = []\<rparr>)"
  using nan_target_returns_sentinels
          [of "[Some 1, None, Some 3]" "table_fit []" "[''a'']" "listed_order [''a'']"
              "[''a'']" "5 / 100" "1 / 10" 12 4]
  by simp

subsection \<open>Passes and reachable loop states\<close>

lemma over_capacity_Done:
  "over_capacity cfg s model = Inr st \<Longrightarrow> \<exists>s' m'. st = Done s' m'"
  unfolding over_capacity_def Let_def
  by (auto split: option.splits sum.splits if_splits)

lemma decide_Continue:
  assumes "decide cfg s c m = Inr (Continue s')"
  shows "(dropped s \<and> threshold_in s = 1 / 10 \<and> onetime s \<and>
          s' = s\<lparr>threshold_in := caller_threshold_in cfg, included := [],
                 included_pvals := [], included_rvals := [], onetime := False\<rparr>) \<or>
         (dropped s \<and> \<not> (threshold_in s = 1 / 10 \<and> onetime s) \<and>
          max_vars cfg < int (length (included s)) \<and> threshold_in s \<noteq> 1 / 100 \<and> \<not> lower s \<and>
          s' = s\<lparr>threshold_in := lower_threshold (threshold_in s), included := [],
                 included_pvals := [], included_rvals := []\<rparr>) \<or>
         (s' = s \<and> c \<and> \<not> (dropped s \<and> threshold_in s = 1 / 10 \<and> onetime s)) \<or>
         (int (length (included s)) < min_vars cfg \<and> threshold_in s \<noteq> 1 / 10 \<and>
          s' = s\<lparr>threshold_in := raise_threshold (threshold_in s), included := [],
                 included_pvals := [], included_rvals := [], lower := True\<rparr>)"
proof (cases "max_vars cfg < int (length (included s)) \<and> \<not> dropped s \<and>
              \<not> (min_vars cfg \<le> int (length (included s)) \<and>
                 int (length (included s)) \<le> max_vars cfg \<and> \<not> c)")
  case True
  with assms have "over_capacity cfg s m = Inr (Continue s')"
    unfolding decide_def by (simp split: if_splits)
  with over_capacity_Done show ?thesis by blast
next
  case False
  with assms show ?thesis
    unfolding decide_def dropped_branch_def stall_branch_def
    by (auto split: if_splits)
qed

lemma outer_pass_Continue:
  assumes "outer_pass cfg s = Inr (Continue s')"
  obtains s1 c1 s2 c2 m where "forward_step cfg s = Inr (s1, c1)"
    "backward_step cfg s1 c1 = Inr (s2, c2, m)" "decide cfg s2 c2 m = Inr (Continue s')"
  using assms unfolding outer_pass_def forward_backward_def
  by (auto split: sum.splits prod.splits)

lemma state_after_Suc_end:
  "state_after cfg (Suc n) s0 = Some s' \<longleftrightarrow>
     (\<exists>s. state_after cfg n s0 = Some s \<and> outer_pass cfg s = Inr (Continue s'))"
proof (induction n arbitrary: s0)
  case 0
  show ?case by (auto split: sum.splits step.splits)
next
  case (Suc n)
  show ?case
  proof (cases "\<exists>s1. outer_pass cfg s0 = Inr (Continue s1)")
    case True
    then obtain s1 where s1: "outer_pass cfg s0 = Inr (Continue s1)" by blast
    then have "state_after cfg (Suc (Suc n)) s0 = state_after cfg (Suc n) s1"
      and "state_after cfg (Suc n) s0 = state_after cfg n s1" by simp_all
    with Suc.IH [of s1] show ?thesis by simp
  next
    case False
    then have "state_after cfg (Suc (Suc n)) s0 = None" "state_after cfg (Suc n) s0 = None"
      by (auto split: sum.splits step.splits)
    then show ?thesis by simp
  qed
qed

lemma state_after_invariant:
  assumes "state_after cfg n s0 = Some s" and "P s0"
      and "\<And>s s'. P s \<Longrightarrow> outer_pass cfg s = Inr (Continue s') \<Longrightarrow> P s'"
  shows "P s"
  using assms(1)
proof (induction n arbitrary: s)
  case 0
  with assms(2) show ?case by simp
next
  case (Suc n)
  then obtain s1 where "state_after cfg n s0 = Some s1" "outer_pass cfg s1 = Inr (Continue s)"
    unfolding state_after_Suc_end by blast
  with Suc.IH assms(3) show ?case by blast
qed


lemma forward_backward_flags:
  assumes "forward_backward cfg s = Inr (s2, c2, m)"
  shows "threshold_in s2 = threshold_in s \<and> lower s2 = lower s \<and> rcond s2 = rcond s \<and>
         onetime s2 = onetime s \<and> (dropped s \<longrightarrow> dropped s2) \<and>
         (dropped s2 \<and> \<not> dropped s \<longrightarrow> c2)"
proof -
  from assms obtain s1 c1 where f: "forward_step cfg s = Inr (s1, c1)"
    and b: "backward_step cfg s1 c1 = Inr (s2, c2, m)"
    unfolding forward_backward_def by (auto split: sum.splits prod.splits)
  from forward_step_facts [OF f] backward_step_facts [OF b] show ?thesis by auto
qed

lemma outer_pass_Continue_fb:
  assumes "outer_pass cfg s = Inr (Continue s')"
  obtains s2 c2 m where "forward_backward cfg s = Inr (s2, c2, m)"
    "decide cfg s2 c2 m = Inr (Continue s')"
  using assms unfolding outer_pass_def
  by (auto split: sum.splits prod.splits)

text \<open>Before the first drop nothing has touched the threshold or the one-time guard;
  the pass of the first drop consumes the guard.\<close>

lemma head_flags_step:
  assumes "outer_pass cfg s = Inr (Continue s')"
      and "\<not> rcond s \<and> (if dropped s then \<not> onetime s else threshold_in s = 1 / 10 \<and> onetime s)"
  shows "\<not> rcond s' \<and> (if dropped s' then \<not> onetime s' else threshold_in s' = 1 / 10 \<and> onetime s')"
proof -
  from assms(1) obtain s2 c2 m where fb: "forward_backward cfg s = Inr (s2, c2, m)"
    and d: "decide cfg s2 c2 m = Inr (Continue s')" by (rule outer_pass_Continue_fb)
  from forward_backward_flags [OF fb] assms(2) decide_Continue [OF d]
  show ?thesis by (elim disjE conjE) (auto split: if_splits)
qed

lemma head_flags:
  assumes "state_after cfg n (init_state il) = Some s"
  shows "\<not> rcond s \<and> (if dropped s then \<not> onetime s else threshold_in s = 1 / 10 \<and> onetime s)"
  using assms
proof (rule state_after_invariant)
  show "\<not> rcond (init_state il) \<and> (if dropped (init_state il) then \<not> onetime (init_state il)
        else threshold_in (init_state il) = 1 / 10 \<and> onetime (init_state il))"
    by (simp add: init_state_def)
qed (rule head_flags_step)

lemma onetime_stays_off:
  assumes "state_after cfg k s0 = Some s" "\<not> onetime s0"
  shows "\<not> onetime s"
  using assms(1)
proof (rule state_after_invariant)
  show "\<not> onetime s0" by fact
next
  fix s s' assume a: "\<not> onetime s" "outer_pass cfg s = Inr (Continue s')"
  from a(2) obtain s2 c2 m where fb: "forward_backward cfg s = Inr (s2, c2, m)"
    and d: "decide cfg s2 c2 m = Inr (Continue s')" by (rule outer_pass_Continue_fb)
  from forward_backward_flags [OF fb] a(1) decide_Continue [OF d]
  show "\<not> onetime s'" by (elim disjE conjE) auto
qed

lemma state_after_add:
  "state_after cfg (n + k) s0 = Some s \<longleftrightarrow>
     (\<exists>s1. state_after cfg n s0 = Some s1 \<and> state_after cfg k s1 = Some s)"
proof (induction n arbitrary: s0)
  case 0
  show ?case by simp
next
  case (Suc n)
  show ?case
  proof (cases "\<exists>s1. outer_pass cfg s0 = Inr (Continue s1)")
    case True
    then obtain s1 where "outer_pass cfg s0 = Inr (Continue s1)" by blast
    with Suc.IH [of s1] show ?thesis by simp
  next
    case False
    then have "state_after cfg (Suc n + k) s0 = None" "state_after cfg (Suc n) s0 = None"
      by (auto split: sum.splits step.splits)
    then show ?thesis by simp
  qed
qed

lemma reset_fires_once_ordered:
  assumes "state_after cfg i s0 = Some si" "reset_fires cfg si"
      and "state_after cfg j s0 = Some sj" "reset_fires cfg sj"
  shows "\<not> i < j"
proof
  assume "i < j"
  then obtain k where j: "j = Suc i + k" by (metis add_Suc less_iff_Suc_add)
  from assms(3) obtain s1 where s1: "state_after cfg (Suc i) s0 = Some s1"
    and k: "state_after cfg k s1 = Some sj"
    unfolding j state_after_add by blast
  from s1 assms(1) have "outer_pass cfg si = Inr (Continue s1)"
    unfolding state_after_Suc_end by auto
  with assms(2) have "\<not> onetime s1" unfolding reset_fires_def by simp
  with k have "\<not> onetime sj" by (rule onetime_stays_off)
  with assms(4) show False unfolding reset_fires_def by (auto split: sum.splits step.splits)
qed

lemma reset_fires_iff:
  assumes J: "if dropped s then \<not> onetime s else threshold_in s = 1 / 10 \<and> onetime s"
  shows "reset_fires cfg s \<longleftrightarrow>
     \<not> dropped s \<and> (\<exists>s2 c2 m. forward_backward cfg s = Inr (s2, c2, m) \<and> dropped s2)"
proof
  assume rf: "reset_fires cfg s"
  then obtain s' where p: "outer_pass cfg s = Inr (Continue s')" and o: "onetime s" "\<not> onetime s'"
    unfolding reset_fires_def by (auto split: sum.splits step.splits)
  from p obtain s2 c2 m where fb: "forward_backward cfg s = Inr (s2, c2, m)"
    and d: "decide cfg s2 c2 m = Inr (Continue s')" by (rule outer_pass_Continue_fb)
  from forward_backward_flags [OF fb] o decide_Continue [OF d]
  have "dropped s2" by (elim disjE conjE) auto
  moreover from J o have "\<not> dropped s" by (auto split: if_splits)
  ultimately show "\<not> dropped s \<and> (\<exists>s2 c2 m. forward_backward cfg s = Inr (s2, c2, m) \<and> dropped s2)"
    using fb by blast
next
  assume "\<not> dropped s \<and> (\<exists>s2 c2 m. forward_backward cfg s = Inr (s2, c2, m) \<and> dropped s2)"
  then obtain s2 c2 m where nd: "\<not> dropped s" and fb: "forward_backward cfg s = Inr (s2, c2, m)"
    and d2: "dropped s2" by blast
  from J nd have t: "threshold_in s = 1 / 10" "onetime s" by simp_all
  from forward_backward_flags [OF fb] nd d2 t
  have "c2" "threshold_in s2 = 1 / 10" "onetime s2" by auto
  with d2 have "decide cfg s2 c2 m =
     Inr (Continue (s2\<lparr>threshold_in := caller_threshold_in cfg, included := [],
                       included_pvals := [], included_rvals := [], onetime := False\<rparr>))"
    unfolding decide_def dropped_branch_def stall_branch_def by simp
  with fb t show "reset_fires cfg s"
    unfolding reset_fires_def outer_pass_def by simp
qed


lemma sqrt_quarter: "sqrt (1 / 4) = 1 / 2"
  by (rule real_sqrt_unique) (simp_all add: power2_eq_square)

lemmas scenario_A = eval_defs sqrt_quarter cfg_A_def fit_A_def state_A1_def

lemma state_A1_reached: "state_after (cfg_A t) 1 (init_state []) = Some state_A1"
  by (simp add: scenario_A)

subsection \<open>The forced start threshold and the one-time reset\<close>

text \<open>
  C1, amended. Every invocation starts with the working threshold 0.1 and the guard
  \<open>onetime\<close> set, whatever the caller passed; the caller's value stays in the
  configuration. The reset to the caller's value fires at most once per invocation. It
  fires exactly in the pass of the first drop (no drop before, a drop in the backward step
  of this pass); the working threshold is then still 0.1, and the pass continues with the
  caller's value, an empty \<open>included\<close> and empty tracks. The size of \<open>included\<close> plays
  no part in it.
\<close>

theorem one_time_reset:
  assumes "state_after cfg i (init_state il) = Some si"
      and "state_after cfg j (init_state il) = Some sj"
  shows "threshold_in (init_state il) = 1 / 10 \<and> onetime (init_state il) \<and>
         (reset_fires cfg si \<and> reset_fires cfg sj \<longrightarrow> i = j) \<and>
         (reset_fires cfg si \<longleftrightarrow>
            \<not> dropped si \<and> (\<exists>s2 c2 m. forward_backward cfg si = Inr (s2, c2, m) \<and> dropped s2)) \<and>
         (reset_fires cfg si \<longrightarrow>
            threshold_in si = 1 / 10 \<and>
            (\<exists>s2 c2 m. forward_backward cfg si = Inr (s2, c2, m) \<and>
               outer_pass cfg si =
                 Inr (Continue (s2\<lparr>threshold_in := caller_threshold_in cfg, included := [],
                                  included_pvals := [], included_rvals := [],
                                  onetime := False\<rparr>))))"
proof -
  have a: "threshold_in (init_state il) = 1 / 10 \<and> onetime (init_state il)"
    by (simp add: init_state_def)
  have b: "reset_fires cfg si \<and> reset_fires cfg sj \<longrightarrow> i = j"
    using reset_fires_once_ordered [OF assms(1) _ assms(2)]
          reset_fires_once_ordered [OF assms(2) _ assms(1)]
    by (meson linorder_neqE_nat)
  from head_flags [OF assms(1)]
  have J: "if dropped si then \<not> onetime si else threshold_in si = 1 / 10 \<and> onetime si" by simp
  note c = reset_fires_iff [OF J, of cfg]
  have d: "threshold_in si = 1 / 10 \<and>
            (\<exists>s2 c2 m. forward_backward cfg si = Inr (s2, c2, m) \<and>
               outer_pass cfg si =
                 Inr (Continue (s2\<lparr>threshold_in := caller_threshold_in cfg, included := [],
                                  included_pvals := [], included_rvals := [],
                                  onetime := False\<rparr>)))" if rf: "reset_fires cfg si"
  proof -
    from rf obtain s' where p: "outer_pass cfg si = Inr (Continue s')"
      and o: "onetime si" "\<not> onetime s'"
      unfolding reset_fires_def by (auto split: sum.splits step.splits)
    from p obtain s2 c2 m where fb: "forward_backward cfg si = Inr (s2, c2, m)"
      and dd: "decide cfg s2 c2 m = Inr (Continue s')" by (rule outer_pass_Continue_fb)
    from forward_backward_flags [OF fb] o decide_Continue [OF dd]
    have "s' = s2\<lparr>threshold_in := caller_threshold_in cfg, included := [],
                   included_pvals := [], included_rvals := [], onetime := False\<rparr>"
      by (elim disjE conjE) auto
    moreover from J o have "threshold_in si = 1 / 10" by (auto split: if_splits)
    ultimately show ?thesis using fb p by blast
  qed
  from a b c d show ?thesis by blast
qed

theorem one_time_reset_witness:
  "state_after (cfg_A (5 / 100)) 1 (init_state []) = Some state_A1 \<and>
   reset_fires (cfg_A (5 / 100)) state_A1 \<and> \<not> dropped state_A1 \<and>
   threshold_in state_A1 = 1 / 10 \<and>
   map_option threshold_in (state_after (cfg_A (5 / 100)) 2 (init_state [])) = Some (5 / 100)"
  using one_time_reset [OF state_A1_reached state_A1_reached, of "5 / 100"]
  by (simp add: scenario_A reset_fires_def numeral_2_eq_2)

text \<open>
  C1 as stated fails: on input A the reset fires in the second pass, where the drop leaves
  one feature in \<open>included\<close>, and one is within the bounds \<open>min_vars = 1\<close> and
  \<open>max_vars = 12\<close>.
\<close>

theorem reset_with_size_in_bounds:
  "state_after (cfg_A (5 / 100)) 1 (init_state []) = Some state_A1 \<and>
   reset_fires (cfg_A (5 / 100)) state_A1 \<and>
   size_after_backward (cfg_A (5 / 100)) state_A1 = Some 1 \<and>
   min_vars (cfg_A (5 / 100)) \<le> 1 \<and> 1 \<le> max_vars (cfg_A (5 / 100))"
  by (simp add: scenario_A reset_fires_def size_after_backward_def)

subsection \<open>The tightening sub-loop\<close>

lemma tighten_loop_induct [consumes 0, case_names Exit Break Again]:
  assumes "\<And>u. \<not> (max_vars cfg < sub_psize u \<or> sub_idem u) \<Longrightarrow> P u u"
      and "\<And>u u'. max_vars cfg < sub_psize u \<or> sub_idem u \<Longrightarrow>
                   tighten_body cfg pvals rvals u = Break u' \<Longrightarrow> P u u'"
      and "\<And>u u'. max_vars cfg < sub_psize u \<or> sub_idem u \<Longrightarrow>
                   tighten_body cfg pvals rvals u = Again u' \<Longrightarrow>
                   P u' (tighten_loop cfg pvals rvals u') \<Longrightarrow>
                   P u (tighten_loop cfg pvals rvals u')"
  shows "P u (tighten_loop cfg pvals rvals u)"
  using assms
proof (induction cfg pvals rvals u rule: tighten_loop.induct)
  case (1 cfg pvals rvals u)
  note ex = "1.prems"(1) and br = "1.prems"(2) and ag = "1.prems"(3)
  show ?case
  proof (cases "max_vars cfg < sub_psize u \<or> sub_idem u")
    case False
    then have e: "tighten_loop cfg pvals rvals u = u" by (subst tighten_loop.simps) simp
    show ?thesis unfolding e using False by (rule ex)
  next
    case True
    show ?thesis
    proof (cases "tighten_body cfg pvals rvals u")
      case (Again u')
      with True have e: "tighten_loop cfg pvals rvals u = tighten_loop cfg pvals rvals u'"
        by (subst tighten_loop.simps) simp
      have "P u' (tighten_loop cfg pvals rvals u')"
        using True Again ex br ag by (rule "1.IH")
      with True Again show ?thesis unfolding e by (rule ag)
    next
      case (Break u')
      with True have e: "tighten_loop cfg pvals rvals u = u'"
        by (subst tighten_loop.simps) simp
      show ?thesis unfolding e using True Break by (rule br)
    qed
  qed
qed

lemma tighten_body_Break:
  assumes "tighten_body cfg pvals rvals u = Break u'"
  shows "(sub_threshold u' = lower_threshold (sub_threshold u) \<and>
          sub_trace u' = sub_trace u @ [lower_threshold (sub_threshold u)] \<and>
          sub_rcond u' = sub_rcond u \<and>
          sub_mask u' = Some (map (\<lambda>p. p < sub_threshold u') pvals)) \<or>
         (sub_rcond u' \<and> sub_mask u' = Some (map (\<lambda>r. r < 9 / 10) rvals) \<and>
          ((sub_psize u' \<noteq> 13 \<and>
            sub_threshold u' = raise_threshold (lower_threshold (sub_threshold u)) \<and>
            sub_trace u' = sub_trace u @ [lower_threshold (sub_threshold u),
                                         raise_threshold (lower_threshold (sub_threshold u))]) \<or>
           (sub_psize u' = 13 \<and>
            sub_threshold u' = lower_threshold (sub_threshold u) \<and>
            sub_trace u' = sub_trace u @ [lower_threshold (sub_threshold u)])))"
proof -
  define t where "t = lower_threshold (sub_threshold u)"
  define ps where "ps = prefix_size (map (\<lambda>p. p < t) pvals)"
  define m where "m = map (\<lambda>p. p < t) pvals"
  define mr where "mr = map (\<lambda>r. r < 9 / 10) rvals"
  from assms have
    "u' = u\<lparr>sub_threshold := t, sub_psize := ps, sub_idem := False,
             sub_mask := Some m, sub_trace := sub_trace u @ [t]\<rparr> \<or>
     ps \<noteq> 13 \<and>
     u' = u\<lparr>sub_threshold := raise_threshold t, sub_psize := ps, sub_idem := False,
             sub_mask := Some mr, sub_rcond := True,
             sub_trace := sub_trace u @ [t, raise_threshold t]\<rparr> \<or>
     ps = 13 \<and>
     u' = u\<lparr>sub_threshold := t, sub_psize := ps, sub_idem := False,
             sub_mask := Some mr, sub_rcond := True, sub_trace := sub_trace u @ [t]\<rparr>"
    unfolding tighten_body_def Let_def t_def ps_def m_def mr_def
    by (simp split: if_splits)
  then show ?thesis unfolding t_def [symmetric]
    by (elim disjE conjE) (simp_all add: m_def mr_def)
qed


lemma np_round2_ok:
  assumes "1 / 100 \<le> x" "x \<le> 1 / 10"
  shows "threshold_ok (np_round2 x)"
proof -
  have "of_int 1 \<le> x * 100" "x * 100 \<le> of_int 10" using assms by simp_all
  then have "1 \<le> round_half_even (x * 100)" "round_half_even (x * 100) \<le> 10"
    using rhe_ge rhe_le by blast+
  then have "(1::real) \<le> of_int (round_half_even (x * 100))"
            "of_int (round_half_even (x * 100)) \<le> (10::real)" by linarith+
  then show ?thesis unfolding threshold_ok_def np_round2_def by simp
qed

lemma lower_threshold_ok: "t \<le> 11 / 100 \<Longrightarrow> threshold_ok (lower_threshold t)"
  unfolding lower_threshold_def by (rule np_round2_ok) (auto simp: max_def)

lemma raise_threshold_ok: "0 \<le> t \<Longrightarrow> threshold_ok (raise_threshold t)"
  unfolding raise_threshold_def by (rule np_round2_ok) (auto simp: min_def)

lemma tighten_loop_ok:
  "threshold_ok (sub_threshold u) \<longrightarrow>
   threshold_ok (sub_threshold (tighten_loop cfg pvals rvals u)) \<and>
   (\<forall>t\<in>set (sub_trace (tighten_loop cfg pvals rvals u)). t \<in> set (sub_trace u) \<or> threshold_ok t)"
proof (induction rule: tighten_loop_induct)
  case (Exit u)
  show ?case by simp
next
  case (Break u u')
  show ?case
  proof
    assume ok: "threshold_ok (sub_threshold u)"
    then have l: "threshold_ok (lower_threshold (sub_threshold u))"
      by (intro lower_threshold_ok) (simp add: threshold_ok_def)
    then have r: "threshold_ok (raise_threshold (lower_threshold (sub_threshold u)))"
      by (intro raise_threshold_ok) (simp add: threshold_ok_def)
    from tighten_body_Break [OF Break(2)] l r
    show "threshold_ok (sub_threshold u') \<and>
          (\<forall>t\<in>set (sub_trace u'). t \<in> set (sub_trace u) \<or> threshold_ok t)"
      by (elim disjE conjE) auto
  qed
next
  case (Again u u')
  show ?case
  proof
    assume ok: "threshold_ok (sub_threshold u)"
    then have l: "threshold_ok (lower_threshold (sub_threshold u))"
      by (intro lower_threshold_ok) (simp add: threshold_ok_def)
    from tighten_body_Again [OF Again(2)] l Again(3)
    show "threshold_ok (sub_threshold (tighten_loop cfg pvals rvals u')) \<and>
          (\<forall>t\<in>set (sub_trace (tighten_loop cfg pvals rvals u')).
              t \<in> set (sub_trace u) \<or> threshold_ok t)"
      by auto
  qed
qed

lemma decide_Done:
  assumes "decide cfg s c m = Inr (Done s' m')"
  shows "(s' = s \<and> m' = m) \<or>
         (max_vars cfg < int (length (included s)) \<and> \<not> dropped s \<and>
          over_capacity cfg s m = Inr (Done s' m'))"
  using assms unfolding decide_def dropped_branch_def stall_branch_def
  by (auto split: if_splits)

lemma over_capacity_threshold:
  assumes "over_capacity cfg s m = Inr (Done s' m')"
  shows "threshold_in s' =
           sub_threshold (tighten_loop cfg (included_pvals s) (included_rvals s) (sub_init s))"
  using assms unfolding over_capacity_def Let_def
  by (auto split: option.splits sum.splits if_splits)

lemma outer_pass_Done_fb:
  assumes "outer_pass cfg s = Inr (Done s' m')"
  obtains s2 c2 m where "forward_backward cfg s = Inr (s2, c2, m)"
    "decide cfg s2 c2 m = Inr (Done s' m')"
  using assms unfolding outer_pass_def
  by (auto split: sum.splits prod.splits)

lemma sub_loop_values_ok:
  assumes "threshold_ok (threshold_in s)"
  shows "threshold_ok (sub_threshold (tighten_loop cfg pvals rvals (sub_init s)))"
    and "\<forall>t\<in>set (sub_trace (tighten_loop cfg pvals rvals (sub_init s))). threshold_ok t"
  using tighten_loop_ok [of "sub_init s" cfg pvals rvals] assms
  by (simp_all add: sub_init_def)

lemma threshold_ok_step:
  assumes "threshold_ok (caller_threshold_in cfg)" "threshold_ok (threshold_in s)"
      and "outer_pass cfg s = Inr (Continue s')"
  shows "threshold_ok (threshold_in s')"
proof -
  from assms(3) obtain s2 c2 m where fb: "forward_backward cfg s = Inr (s2, c2, m)"
    and d: "decide cfg s2 c2 m = Inr (Continue s')" by (rule outer_pass_Continue_fb)
  from forward_backward_flags [OF fb] assms(2) have ok2: "threshold_ok (threshold_in s2)" by simp
  then have "threshold_in s2 \<le> 11 / 100" "0 \<le> threshold_in s2"
    unfolding threshold_ok_def by simp_all
  then have "threshold_ok (lower_threshold (threshold_in s2))"
            "threshold_ok (raise_threshold (threshold_in s2))"
    using lower_threshold_ok raise_threshold_ok by blast+
  with decide_Continue [OF d] assms(1) ok2 show ?thesis
    by (elim disjE conjE) simp_all
qed

lemmas scenario_B = eval_defs sqrt_quarter cfg_B_def fit_B_def state_B1_def state_B2_def state_B3_def

lemma state_B1_reached: "state_after (cfg_B t) 1 (init_state []) = Some state_B1"
  by (simp add: scenario_B)

lemma state_B2_reached:
  "forward_backward (cfg_B t) state_B1 = Inr (state_B2, True, projr (fit_B [''a'', ''b'']))"
  by (simp add: scenario_B)

lemma state_B3_reached:
  "outer_pass (cfg_B t) state_B1 = Inr (Done state_B3 (projr (fit_B [''a''])))"
  by (simp add: scenario_B)

lemma trace_B:
  "sub_trace (tighten_loop (cfg_B t) (included_pvals state_B2) (included_rvals state_B2)
     (sub_init state_B2)) = [9 / 100, 8 / 100, 7 / 100, 6 / 100, 5 / 100, 4 / 100, 3 / 100, 2 / 100]"
  by (simp add: scenario_B)

subsection \<open>The range of the working threshold\<close>

text \<open>
  C4, amended. If the threshold the caller passes is itself in range (between 0.01 and
  0.10, a whole number of hundredths), then so is the working threshold at the head of
  every pass, through the forward and backward steps, at every assignment inside the
  tightening sub-loop, and on return.
\<close>

theorem threshold_in_stays_in_range:
  assumes "threshold_ok (caller_threshold_in cfg)"
      and "state_after cfg n (init_state initial_list) = Some s"
  shows "threshold_ok (threshold_in s) \<and>
         (outer_pass cfg s = Inr (Done s' m') \<longrightarrow> threshold_ok (threshold_in s')) \<and>
         (forward_backward cfg s = Inr (s2, c2, m) \<longrightarrow>
            threshold_in s2 = threshold_in s \<and>
            (\<forall>t\<in>set (sub_trace (tighten_loop cfg (included_pvals s2) (included_rvals s2)
                                   (sub_init s2))).
               threshold_ok t))"
proof -
  have ok: "threshold_ok (threshold_in s)"
    using assms(2)
  proof (rule state_after_invariant)
    show "threshold_ok (threshold_in (init_state initial_list))"
      by (simp add: init_state_def threshold_ok_def)
  qed (rule threshold_ok_step [OF assms(1)])
  have dn: "threshold_ok (threshold_in s')" if p: "outer_pass cfg s = Inr (Done s' m')"
  proof -
    from p obtain s2 c2 m where fb: "forward_backward cfg s = Inr (s2, c2, m)"
      and d: "decide cfg s2 c2 m = Inr (Done s' m')" by (rule outer_pass_Done_fb)
    from forward_backward_flags [OF fb] ok have ok2: "threshold_ok (threshold_in s2)" by simp
    from decide_Done [OF d] show ?thesis
    proof
      assume "s' = s2 \<and> m' = m" with ok2 show ?thesis by simp
    next
      assume "max_vars cfg < int (length (included s2)) \<and> \<not> dropped s2 \<and>
              over_capacity cfg s2 m = Inr (Done s' m')"
      then show ?thesis
        using over_capacity_threshold [of cfg s2 m s' m'] sub_loop_values_ok(1) [OF ok2] by simp
    qed
  qed
  have tr: "threshold_in s2 = threshold_in s \<and>
            (\<forall>t\<in>set (sub_trace (tighten_loop cfg (included_pvals s2) (included_rvals s2)
                                   (sub_init s2))).
               threshold_ok t)" if fb: "forward_backward cfg s = Inr (s2, c2, m)"
  proof -
    from forward_backward_flags [OF fb] ok have "threshold_in s2 = threshold_in s"
      "threshold_ok (threshold_in s2)" by simp_all
    with sub_loop_values_ok(2) show ?thesis by blast
  qed
  from ok dn tr show ?thesis by blast
qed

theorem threshold_in_stays_in_range_witness:
  "threshold_ok (caller_threshold_in (cfg_B (5 / 100))) \<and>
   state_after (cfg_B (5 / 100)) 1 (init_state []) = Some state_B1 \<and>
   outer_pass (cfg_B (5 / 100)) state_B1 = Inr (Done state_B3 (projr (fit_B [''a'']))) \<and>
   forward_backward (cfg_B (5 / 100)) state_B1 = Inr (state_B2, True, projr (fit_B [''a'', ''b''])) \<and>
   threshold_ok (threshold_in state_B1) \<and> threshold_ok (threshold_in state_B3) \<and>
   threshold_in state_B3 = 2 / 100 \<and>
   list_all threshold_ok
     [9 / 100, 8 / 100, 7 / 100, 6 / 100, 5 / 100, 4 / 100, 3 / 100, 2 / 100]"
proof -
  have c: "threshold_ok (caller_threshold_in (cfg_B (5 / 100)))"
    by (simp add: cfg_B_def threshold_ok_def)
  note r = state_B1_reached [of "5 / 100"] and f = state_B2_reached [of "5 / 100"]
    and d = state_B3_reached [of "5 / 100"]
  from threshold_in_stays_in_range [OF c r, of state_B3 "projr (fit_B [''a''])"
      state_B2 True "projr (fit_B [''a'', ''b''])"]
  have "threshold_ok (threshold_in state_B1)" "threshold_ok (threshold_in state_B3)"
    "list_all threshold_ok
       [9 / 100, 8 / 100, 7 / 100, 6 / 100, 5 / 100, 4 / 100, 3 / 100, 2 / 100]"
    unfolding d f trace_B list_all_iff by simp_all
  moreover have "threshold_in state_B3 = 2 / 100" by (simp add: state_B3_def)
  ultimately show ?thesis using c r f d by blast
qed

text \<open>
  C4 as stated fails: the one-time reset installs the caller's value as it is. On input A
  with \<open>threshold_in = 0.005\<close> the third pass runs with the working threshold 0.005, below
  0.01 and not a whole number of hundredths (the invocation later returns 0.02).
\<close>

theorem threshold_in_below_range:
  "map_option threshold_in (state_after (cfg_A (5 / 1000)) 2 (init_state [])) = Some (5 / 1000) \<and>
   \<not> (1 / 100 \<le> (5 / 1000 :: real)) \<and> of_int \<lfloor>5 / 1000 * 100 :: real\<rfloor> \<noteq> (5 / 1000 * 100 :: real) \<and>
   returned_threshold (stepwise_selection fit_A [''a'', ''b''] (listed_order [''a'', ''b''])
      [Some 1, Some 2] [] (5 / 1000) (1 / 10) 12 1) = Some (2 / 100)"
  by (simp add: scenario_A numeral_2_eq_2 returned_threshold_def stepwise_selection_def
        outer_loop.simps)

subsection \<open>The parallel tracks\<close>

lemma backward_step_eq:
  assumes fm: "fit cfg (included s1) = Inr m"
  shows "backward_step cfg s1 c =
      (let i = first_index (\<lambda>c. c = included s1 ! argmax (map (pvalue m) (included s1)))
                 (included s1)
       in if included s1 = [] \<or> \<not> threshold_out cfg < Max (set (map (pvalue m) (included s1)))
          then Inr (s1\<lparr>fit_log := fit_log s1 @ [included s1]\<rparr>, c, m)
          else if i < length (included_pvals s1) \<and> i < length (included_rvals s1) then
            Inr (s1\<lparr>fit_log := fit_log s1 @ [included s1], dropped := True,
                    included_pvals := remove_at i (included_pvals s1),
                    included_rvals := remove_at i (included_rvals s1),
                    included := remove_at i (included s1)\<rparr>, True, m)
          else Inl IndexError)"
proof (cases "included s1 = []")
  case True
  with fm show ?thesis by (simp add: backward_step_def Let_def series_max_def)
next
  case False
  let ?pv = "map (pvalue m) (included s1)"
  let ?w = "included s1 ! argmax ?pv"
  from False have "?pv \<noteq> []" by simp
  from argmax_less [OF this] have "?w \<in> set (included s1)" by simp
  from remove1_first_index [OF this] False show ?thesis
    by (simp add: backward_step_def Let_def series_max_def fm pop_def)
qed

lemma drop_index_in_range:
  assumes "included s1 \<noteq> []"
  shows "first_index (\<lambda>c. c = included s1 ! argmax (map (pvalue m) (included s1))) (included s1)
           < length (included s1)"
proof -
  from assms have "map (pvalue m) (included s1) \<noteq> []" by simp
  from argmax_less [OF this]
  have "included s1 ! argmax (map (pvalue m) (included s1)) \<in> set (included s1)" by simp
  then show ?thesis by (intro first_index_less) auto
qed

lemma backward_step_succeeds:
  assumes "tracks_aligned s1" "fit cfg (included s1) = Inr m"
  shows "\<exists>s2 c2. backward_step cfg s1 c = Inr (s2, c2, m)"
  using drop_index_in_range [of s1 m] assms(1)
  unfolding backward_step_eq [OF assms(2)] Let_def tracks_aligned_def
  by auto

lemma length_remove_at: "i < length xs \<Longrightarrow> length (remove_at i xs) = length xs - 1"
  unfolding remove_at_def by simp

lemma forward_step_aligned:
  "forward_step cfg s = Inr (s1, c1) \<Longrightarrow> tracks_aligned s \<Longrightarrow> tracks_aligned s1"
  using forward_step_facts [of cfg s s1 c1] unfolding tracks_aligned_def
  by (auto split: if_splits)

lemma backward_step_aligned:
  "backward_step cfg s1 c1 = Inr (s2, c2, m) \<Longrightarrow> tracks_aligned s1 \<Longrightarrow> tracks_aligned s2"
  using backward_step_facts [of cfg s1 c1 s2 c2 m] unfolding tracks_aligned_def
  by (auto simp: length_remove_at)

lemma decide_aligned:
  "decide cfg s2 c2 m = Inr (Continue s') \<Longrightarrow> tracks_aligned s2 \<Longrightarrow> tracks_aligned s'"
  using decide_Continue [of cfg s2 c2 m s'] unfolding tracks_aligned_def
  by auto

lemma outer_pass_aligned:
  assumes "tracks_aligned s" "outer_pass cfg s = Inr (Continue s')"
  shows "tracks_aligned s'"
proof -
  from assms(2) obtain s1 c1 s2 c2 m where "forward_step cfg s = Inr (s1, c1)"
    "backward_step cfg s1 c1 = Inr (s2, c2, m)" "decide cfg s2 c2 m = Inr (Continue s')"
    by (rule outer_pass_Continue)
  with assms(1) show ?thesis
    using forward_step_aligned backward_step_aligned decide_aligned by blast
qed

lemma state_A1f_reached: "forward_step (cfg_A t) state_A1 = Inr (state_A1f, True)"
  by (simp add: scenario_A state_A1f_def)

lemma state_A2_reached:
  "backward_step (cfg_A t) state_A1f True = Inr (state_A2, True, projr (fit_A [''a'', ''b'']))"
  by (simp add: scenario_A state_A1f_def state_A2_def)

text \<open>
  C3, amended. In an invocation with an empty \<open>initial_list\<close>, the p-value track, the
  r-value track and \<open>included\<close> have the same length at the head of every pass, after
  the forward step, after the backward step, and in the state with which the pass
  continues; the backward step does not fail once its fit has succeeded, and when it
  removes a feature it removes one position \<open>i\<close> from \<open>included\<close> and the same position
  from both tracks. (The truncation that ends the over-capacity handling is not part of
  this: it shortens \<open>included\<close> only.)
\<close>

theorem tracks_stay_aligned:
  assumes "state_after cfg n (init_state []) = Some s"
  shows "tracks_aligned s \<and>
         (forward_step cfg s = Inr (s1, c1) \<longrightarrow>
            tracks_aligned s1 \<and>
            (fit cfg (included s1) = Inr m \<longrightarrow> (\<exists>s2 c2. backward_step cfg s1 c1 = Inr (s2, c2, m))) \<and>
            (backward_step cfg s1 c1 = Inr (s2, c2, m) \<longrightarrow>
               tracks_aligned s2 \<and>
               (included s2 \<noteq> included s1 \<longrightarrow>
                  (\<exists>i<length (included s1).
                      included s2 = remove_at i (included s1) \<and>
                      included_pvals s2 = remove_at i (included_pvals s1) \<and>
                      included_rvals s2 = remove_at i (included_rvals s1))) \<and>
               (decide cfg s2 c2 m = Inr (Continue s') \<longrightarrow> tracks_aligned s')))"
proof -
  have a: "tracks_aligned s"
    using assms
  proof (rule state_after_invariant)
    show "tracks_aligned (init_state [])" by (simp add: init_state_def tracks_aligned_def)
  qed (rule outer_pass_aligned)
  have rm: "\<exists>i<length (included s1).
                      included s2 = remove_at i (included s1) \<and>
                      included_pvals s2 = remove_at i (included_pvals s1) \<and>
                      included_rvals s2 = remove_at i (included_rvals s1)"
    if "backward_step cfg s1 c1 = Inr (s2, c2, m)" "included s2 \<noteq> included s1"
    using backward_step_facts [OF that(1)] that(2) by auto
  have f: "tracks_aligned s1" if "forward_step cfg s = Inr (s1, c1)"
    using that a by (rule forward_step_aligned)
  have ex: "\<exists>s2 c2. backward_step cfg s1 c1 = Inr (s2, c2, m)"
    if "forward_step cfg s = Inr (s1, c1)" "fit cfg (included s1) = Inr m"
    using f [OF that(1)] that(2) by (rule backward_step_succeeds)
  have b: "tracks_aligned s2"
    if "forward_step cfg s = Inr (s1, c1)" "backward_step cfg s1 c1 = Inr (s2, c2, m)"
    using that(2) f [OF that(1)] by (rule backward_step_aligned)
  have d: "tracks_aligned s'"
    if "forward_step cfg s = Inr (s1, c1)" "backward_step cfg s1 c1 = Inr (s2, c2, m)"
       "decide cfg s2 c2 m = Inr (Continue s')"
    using that(3) b [OF that(1,2)] by (rule decide_aligned)
  show ?thesis
    apply (intro conjI impI)
    apply (rule a)
    apply (erule f)
    apply (erule (1) ex)
    apply (erule (1) b)
    apply (erule (1) rm)
    apply (erule (2) d)
    done
qed

theorem tracks_stay_aligned_witness:
  "state_after (cfg_A (5 / 100)) 1 (init_state []) = Some state_A1 \<and>
   forward_step (cfg_A (5 / 100)) state_A1 = Inr (state_A1f, True) \<and>
   backward_step (cfg_A (5 / 100)) state_A1f True =
     Inr (state_A2, True, projr (fit_A [''a'', ''b''])) \<and>
   tracks_aligned state_A1 \<and> tracks_aligned state_A1f \<and> tracks_aligned state_A2 \<and>
   included state_A2 \<noteq> included state_A1f \<and>
   included state_A2 = remove_at 0 (included state_A1f) \<and>
   included_pvals state_A2 = remove_at 0 (included_pvals state_A1f) \<and>
   included_rvals state_A2 = remove_at 0 (included_rvals state_A1f)"
proof -
  note r = state_A1_reached [of "5 / 100"] and f = state_A1f_reached [of "5 / 100"]
    and b = state_A2_reached [of "5 / 100"]
  from tracks_stay_aligned [OF r, of state_A1f True "projr (fit_A [''a'', ''b''])" state_A2 True]
  have "tracks_aligned state_A1 \<and> tracks_aligned state_A1f \<and> tracks_aligned state_A2"
    unfolding f b by simp
  moreover have "included state_A2 \<noteq> included state_A1f \<and>
   included state_A2 = remove_at 0 (included state_A1f) \<and>
   included_pvals state_A2 = remove_at 0 (included_pvals state_A1f) \<and>
   included_rvals state_A2 = remove_at 0 (included_rvals state_A1f)"
    by (simp add: state_A1f_def state_A2_def remove_at_def)
  ultimately show ?thesis using r f b by blast
qed

text \<open>
  C3 as stated fails. On input B the over-capacity handling truncates \<open>included\<close> to
  one feature and returns while both tracks still hold two entries; and with a non-empty
  \<open>initial_list\<close> the invocation starts with features in \<open>included\<close> and empty tracks.
\<close>

theorem tracks_differ_after_truncation:
  "state_after (cfg_B (5 / 100)) 1 (init_state []) = Some state_B1 \<and>
   outer_pass (cfg_B (5 / 100)) state_B1 = Inr (Done state_B3 (projr (fit_B [''a'']))) \<and>
   length (included state_B3) = 1 \<and> length (included_pvals state_B3) = 2 \<and>
   length (included_rvals state_B3) = 2 \<and>
   length (included (init_state [''a''])) = 1 \<and>
   length (included_pvals (init_state [''a''])) = 0 \<and>
   length (included_rvals (init_state [''a''])) = 0"
  using state_B1_reached [of "5 / 100"] state_B3_reached [of "5 / 100"]
  by (simp add: state_B3_def init_state_def)

subsection \<open>The backward step\<close>

text \<open>
  C8. The backward step is to remove the feature with the largest p-value above
  \<open>threshold_out\<close> from \<open>included\<close> and from both tracks. The code does so when the
  tracks run parallel to \<open>included\<close> (lemmas \<open>backward_step_facts\<close>,
  \<open>backward_step_succeeds\<close>). With a feature passed in \<open>initial_list\<close> they do not: on
  input F the feature \<open>a\<close> has the p-value 0.5, above \<open>threshold_out = 0.1\<close>, and
  \<open>included_pvals.pop(0)\<close> on the empty track raises IndexError instead of removing it.
\<close>

theorem drop_with_initial_list_raises:
  "stepwise_selection fit_F [''a''] (listed_order [''a'']) [Some 1, Some 2] [''a'']
     (5 / 100) (1 / 10) 12 4 = Some (Inl IndexError) \<and>
   forward_step \<lparr>fit = fit_F, columns = [''a''], set_order = listed_order [''a''],
       caller_threshold_in = 5 / 100, threshold_out = 1 / 10, max_vars = 12, min_vars = 4\<rparr>
     (init_state [''a'']) = Inr ((init_state [''a'']), False) \<and>
   backward_step \<lparr>fit = fit_F, columns = [''a''], set_order = listed_order [''a''],
       caller_threshold_in = 5 / 100, threshold_out = 1 / 10, max_vars = 12, min_vars = 4\<rparr>
     (init_state [''a'']) False = Inl IndexError"
  by (simp add: eval_defs fit_F_def stepwise_selection_def outer_loop.simps)

subsection \<open>The thresholds of the tightening sub-loop\<close>

lemma rhe_upper: "of_int (round_half_even x) \<le> x + 1 / 2"
proof -
  have "of_int \<lfloor>x\<rfloor> \<le> x" by simp
  then show ?thesis unfolding round_half_even_def Let_def
    by (simp add: not_less) linarith
qed

lemma lower_threshold_le:
  assumes "1 / 100 \<le> x"
  shows "lower_threshold x \<le> x"
proof (cases "x - 1 / 100 \<le> 1 / 100")
  case True
  then have "max (1 / 100) (x - 1 / 100) * 100 = of_int 1" by (simp add: max_def)
  then have "lower_threshold x = 1 / 100"
    unfolding lower_threshold_def np_round2_def by (simp only: rhe_of_int)
  with assms show ?thesis by simp
next
  case False
  then have e: "max (1 / 100) (x - 1 / 100) * 100 = 100 * x - 1" by (simp add: max_def)
  from rhe_upper [of "100 * x - 1"]
  have "of_int (round_half_even (100 * x - 1)) / 100 \<le> x" by simp
  then show ?thesis unfolding lower_threshold_def np_round2_def e .
qed

lemma lower_threshold_ge: "1 / 100 \<le> lower_threshold x"
  using lower_threshold_hundredth [of x] by auto

lemma tighten_loop_trace:
  "1 / 100 \<le> sub_threshold u \<and> \<not> sub_rcond u \<longrightarrow>
   (\<exists>vs. sorted_wrt (\<ge>) (sub_threshold u # vs) \<and>
      ((\<not> (sub_rcond (tighten_loop cfg pvals rvals u) \<and>
            sub_psize (tighten_loop cfg pvals rvals u) \<noteq> 13) \<and>
         sub_trace (tighten_loop cfg pvals rvals u) = sub_trace u @ vs \<and>
         sub_threshold (tighten_loop cfg pvals rvals u) = last (sub_threshold u # vs)) \<or>
       (sub_rcond (tighten_loop cfg pvals rvals u) \<and>
        sub_psize (tighten_loop cfg pvals rvals u) \<noteq> 13 \<and> vs \<noteq> [] \<and>
        sub_trace (tighten_loop cfg pvals rvals u) =
          sub_trace u @ vs @ [raise_threshold (last vs)] \<and>
        sub_threshold (tighten_loop cfg pvals rvals u) = raise_threshold (last vs))))"
proof (induction rule: tighten_loop_induct)
  case (Exit u)
  show ?case by (intro impI exI [of _ "[]"]) simp
next
  case (Break u u')
  show ?case
  proof (intro impI exI [of _ "[lower_threshold (sub_threshold u)]"])
    assume a: "1 / 100 \<le> sub_threshold u \<and> \<not> sub_rcond u"
    then have "lower_threshold (sub_threshold u) \<le> sub_threshold u"
      by (intro lower_threshold_le) simp
    with a tighten_body_Break [OF Break(2)]
    show "sorted_wrt (\<ge>) [sub_threshold u, lower_threshold (sub_threshold u)] \<and>
      ((\<not> (sub_rcond u' \<and> sub_psize u' \<noteq> 13) \<and>
         sub_trace u' = sub_trace u @ [lower_threshold (sub_threshold u)] \<and>
         sub_threshold u' = last [sub_threshold u, lower_threshold (sub_threshold u)]) \<or>
       (sub_rcond u' \<and> sub_psize u' \<noteq> 13 \<and> [lower_threshold (sub_threshold u)] \<noteq> [] \<and>
        sub_trace u' =
          sub_trace u @ [lower_threshold (sub_threshold u)] @
            [raise_threshold (last [lower_threshold (sub_threshold u)])] \<and>
        sub_threshold u' = raise_threshold (last [lower_threshold (sub_threshold u)])))"
      by (elim disjE conjE) simp_all
  qed
next
  case (Again u u')
  let ?t = "lower_threshold (sub_threshold u)"
  let ?r = "tighten_loop cfg pvals rvals u'"
  show ?case
  proof
    assume a: "1 / 100 \<le> sub_threshold u \<and> \<not> sub_rcond u"
    then have le: "?t \<le> sub_threshold u" by (intro lower_threshold_le) simp
    note b = tighten_body_Again [OF Again(2)]
    from b a lower_threshold_ge [of "sub_threshold u"]
    have "1 / 100 \<le> sub_threshold u' \<and> \<not> sub_rcond u'" by simp
    with Again(3) obtain vs where vs: "sorted_wrt (\<ge>) (sub_threshold u' # vs)"
      "(\<not> (sub_rcond ?r \<and> sub_psize ?r \<noteq> 13) \<and>
         sub_trace ?r = sub_trace u' @ vs \<and> sub_threshold ?r = last (sub_threshold u' # vs)) \<or>
       (sub_rcond ?r \<and> sub_psize ?r \<noteq> 13 \<and> vs \<noteq> [] \<and>
        sub_trace ?r = sub_trace u' @ vs @ [raise_threshold (last vs)] \<and>
        sub_threshold ?r = raise_threshold (last vs))" by blast
    from vs(1) b le have s: "sorted_wrt (\<ge>) (sub_threshold u # ?t # vs)" by auto
    from vs(2) b have
      "(\<not> (sub_rcond ?r \<and> sub_psize ?r \<noteq> 13) \<and>
         sub_trace ?r = sub_trace u @ (?t # vs) \<and>
         sub_threshold ?r = last (sub_threshold u # ?t # vs)) \<or>
       (sub_rcond ?r \<and> sub_psize ?r \<noteq> 13 \<and> ?t # vs \<noteq> [] \<and>
        sub_trace ?r = sub_trace u @ (?t # vs) @ [raise_threshold (last (?t # vs))] \<and>
        sub_threshold ?r = raise_threshold (last (?t # vs)))"
      by (elim disjE conjE) simp_all
    with s show "\<exists>vs. sorted_wrt (\<ge>) (sub_threshold u # vs) \<and>
      ((\<not> (sub_rcond ?r \<and> sub_psize ?r \<noteq> 13) \<and>
         sub_trace ?r = sub_trace u @ vs \<and> sub_threshold ?r = last (sub_threshold u # vs)) \<or>
       (sub_rcond ?r \<and> sub_psize ?r \<noteq> 13 \<and> vs \<noteq> [] \<and>
        sub_trace ?r = sub_trace u @ vs @ [raise_threshold (last vs)] \<and>
        sub_threshold ?r = raise_threshold (last vs)))"
      by (intro exI [of _ "?t # vs"]) blast
  qed
qed

lemmas scenario_E = eval_defs sqrt_quarter cfg_E_def fit_E_def state_E1_def state_E2_def

lemma state_E1_reached: "state_after cfg_E 1 (init_state []) = Some state_E1"
  by (simp add: scenario_E)

lemma state_E2_reached:
  "forward_backward cfg_E state_E1 = Inr (state_E2, True, projr (fit_E [''a'', ''b'']))"
  by (simp add: scenario_E)

lemma trace_E:
  "sub_trace (tighten_loop cfg_E (included_pvals state_E2) (included_rvals state_E2)
     (sub_init state_E2)) = [9 / 100, 8 / 100, 7 / 100, 6 / 100, 5 / 100, 6 / 100]"
  by (simp add: scenario_E)

lemma tightened_E:
  "tightened (tighten_loop cfg_E (included_pvals state_E2) (included_rvals state_E2)
     (sub_init state_E2)) = [9 / 100, 8 / 100, 7 / 100, 6 / 100, 5 / 100]"
  by (simp add: scenario_E tightened_def)

text \<open>
  C6, amended. Take any pass of any invocation whose backward step leaves \<open>dropped\<close>
  unset (the sub-loop runs only then). The sub-loop starts from the threshold 0.1; the
  values its tightening assignment (line 85) gives to \<open>threshold_in\<close> are non-increasing,
  starting from that entry value; the only other assignment is the one that ends the
  loop on the quality branch with \<open>psize != 13\<close>, which raises the last tightened value
  by one step (lines 122-125).
\<close>

theorem tightening_non_increasing:
  fixes cfg s
  defines "u \<equiv> tighten_loop cfg (included_pvals s) (included_rvals s) (sub_init s)"
  assumes "state_after cfg n (init_state initial_list) = Some s0"
      and "forward_backward cfg s0 = Inr (s, c, m)"
      and "\<not> dropped s"
  shows "threshold_in s = 1 / 10 \<and>
         sorted_wrt (\<ge>) (threshold_in s # tightened u) \<and>
         sub_trace u =
           tightened u @
           (if sub_rcond u \<and> sub_psize u \<noteq> 13 then [raise_threshold (last (tightened u))]
            else []) \<and>
         sub_threshold u = last (threshold_in s # sub_trace u)"
proof -
  from forward_backward_flags [OF assms(3)] assms(4) head_flags [OF assms(2)]
  have t: "threshold_in s = 1 / 10" and r: "\<not> rcond s" by (auto split: if_splits)
  then have "1 / 100 \<le> sub_threshold (sub_init s) \<and> \<not> sub_rcond (sub_init s)"
    by (simp add: sub_init_def)
  with tighten_loop_trace [of "sub_init s" cfg "included_pvals s" "included_rvals s"]
  obtain vs where vs: "sorted_wrt (\<ge>) (threshold_in s # vs)"
    "(\<not> (sub_rcond u \<and> sub_psize u \<noteq> 13) \<and> sub_trace u = vs \<and>
       sub_threshold u = last (threshold_in s # vs)) \<or>
     (sub_rcond u \<and> sub_psize u \<noteq> 13 \<and> vs \<noteq> [] \<and>
      sub_trace u = vs @ [raise_threshold (last vs)] \<and>
      sub_threshold u = raise_threshold (last vs))"
    unfolding u_def by (auto simp: sub_init_def)
  from vs(2) have "tightened u = vs" unfolding tightened_def by auto
  with vs t show ?thesis by auto
qed

theorem tightening_non_increasing_witness:
  "state_after cfg_E 1 (init_state []) = Some state_E1 \<and>
   forward_backward cfg_E state_E1 = Inr (state_E2, True, projr (fit_E [''a'', ''b''])) \<and>
   \<not> dropped state_E2 \<and>
   sorted_wrt (\<ge>) [1 / 10, 9 / 100, 8 / 100, 7 / 100, 6 / 100, 5 / 100 :: real]"
proof -
  have d: "\<not> dropped state_E2" by (simp add: state_E2_def)
  from tightening_non_increasing [OF state_E1_reached state_E2_reached d]
  have "sorted_wrt (\<ge>) [1 / 10, 9 / 100, 8 / 100, 7 / 100, 6 / 100, 5 / 100 :: real]"
    unfolding tightened_E by (simp add: state_E2_def)
  with d state_E1_reached state_E2_reached show ?thesis by blast
qed

text \<open>
  C6 as stated fails: on input E the values \<open>threshold_in\<close> takes inside the sub-loop of
  the second pass are 0.09, 0.08, 0.07, 0.06, 0.05 and then 0.06.
\<close>

theorem threshold_raised_inside_sub_loop:
  "state_after cfg_E 1 (init_state []) = Some state_E1 \<and>
   forward_backward cfg_E state_E1 = Inr (state_E2, True, projr (fit_E [''a'', ''b''])) \<and>
   max_vars cfg_E < int (length (included state_E2)) \<and> \<not> dropped state_E2 \<and>
   sub_trace (tighten_loop cfg_E (included_pvals state_E2) (included_rvals state_E2)
     (sub_init state_E2)) = [9 / 100, 8 / 100, 7 / 100, 6 / 100, 5 / 100, 6 / 100] \<and>
   \<not> sorted_wrt (\<ge>) [9 / 100, 8 / 100, 7 / 100, 6 / 100, 5 / 100, 6 / 100 :: real]"
proof -
  have "max_vars cfg_E < int (length (included state_E2))" "\<not> dropped state_E2"
    by (simp_all add: state_E2_def cfg_E_def)
  moreover have "\<not> sorted_wrt (\<ge>) [9 / 100, 8 / 100, 7 / 100, 6 / 100, 5 / 100, 6 / 100 :: real]"
    by simp (rule exI [of _ "3 / 50"], simp)
  ultimately show ?thesis using state_E1_reached state_E2_reached trace_E by blast
qed

subsection \<open>The truncation that ends the over-capacity handling\<close>

lemma hd_filter_upt:
  assumes "i < n" "P i" "\<forall>j<i. \<not> P j"
  shows "filter P [0..<n] \<noteq> [] \<and> hd (filter P [0..<n]) = i"
proof -
  from assms(1) have "[0..<n] = [0..<i] @ [i..<i + (n - i)]"
    using upt_add_eq_append [of 0 i "n - i"] by simp
  also from assms(1) have "[i..<i + (n - i)] = i # [Suc i..<n]"
    by (simp add: upt_conv_Cons)
  finally have "[0..<n] = [0..<i] @ i # [Suc i..<n]" .
  moreover from assms(3) have "filter P [0..<i] = []" by (auto simp: filter_empty_conv)
  ultimately show ?thesis using assms(2) by simp
qed

lemma takeWhile_prefix_holds:
  "j < length (takeWhile Q xs) \<Longrightarrow> Q (xs ! j)"
  by (metis nth_mem set_takeWhileD takeWhile_nth)

lemma truncation_points_plain:
  "\<not> length (takeWhile Q xs) < length xs \<Longrightarrow> truncation_points (map Q xs) False = []"
  "length (takeWhile Q xs) < length xs \<Longrightarrow>
     truncation_points (map Q xs) False \<noteq> [] \<and>
     hd (truncation_points (map Q xs) False) = length (takeWhile Q xs)"
proof -
  let ?k = "length (takeWhile Q xs)"
  let ?P = "\<lambda>i. map Q xs ! i = False"
  have tp: "truncation_points (map Q xs) False = filter ?P [0..<length xs]"
    by (simp add: truncation_points_def)
  show "truncation_points (map Q xs) False = []" if "\<not> ?k < length xs"
  proof -
    from that have "?k = length xs" using length_takeWhile_le [of Q xs] by simp
    then have "\<forall>i<length xs. Q (xs ! i)" using takeWhile_prefix_holds [of _ Q xs] by simp
    then have "filter ?P [0..<length xs] = []" by (auto simp: filter_empty_conv)
    with tp show ?thesis by simp
  qed
  assume k: "?k < length xs"
  then have "?P ?k" using nth_length_takeWhile [of Q xs] by simp
  moreover have "\<forall>j<?k. \<not> ?P j" using takeWhile_prefix_holds [of _ Q xs] k by simp
  ultimately show "truncation_points (map Q xs) False \<noteq> [] \<and>
     hd (truncation_points (map Q xs) False) = ?k"
    unfolding tp using hd_filter_upt [OF k, of ?P] by blast
qed

lemma truncation_points_quality:
  "\<not> 4 + length (takeWhile Q (drop 4 xs)) < length xs \<Longrightarrow>
     truncation_points (map Q xs) True = []"
  "4 + length (takeWhile Q (drop 4 xs)) < length xs \<Longrightarrow>
     truncation_points (map Q xs) True \<noteq> [] \<and>
     hd (truncation_points (map Q xs) True) = 4 + length (takeWhile Q (drop 4 xs))"
proof -
  let ?ys = "drop 4 xs"
  let ?k = "4 + length (takeWhile Q ?ys)"
  let ?P = "\<lambda>i. map Q xs ! i = False \<and> 3 < i"
  have tp: "truncation_points (map Q xs) True = filter ?P [0..<length xs]"
    by (simp add: truncation_points_def)
  have below: "\<not> ?P j" if "j < ?k" "j < length xs" for j
  proof (cases "3 < j")
    case True
    with that have "j - 4 < length (takeWhile Q ?ys)" by simp
    then have "Q (?ys ! (j - 4))" by (rule takeWhile_prefix_holds)
    with True that show ?thesis by simp
  qed simp
  show "truncation_points (map Q xs) True = []" if "\<not> ?k < length xs"
  proof -
    from that have "\<forall>i<length xs. \<not> ?P i"
      using below by (meson not_less order_less_le_trans)
    then have "filter ?P [0..<length xs] = []" by (auto simp: filter_empty_conv)
    with tp show ?thesis by simp
  qed
  assume k: "?k < length xs"
  then have "length (takeWhile Q ?ys) < length ?ys" by simp
  then have "\<not> Q (?ys ! length (takeWhile Q ?ys))" by (rule nth_length_takeWhile)
  with k have "?P ?k" by (simp add: add.commute)
  moreover have "\<forall>j<?k. \<not> ?P j" using below k by (meson less_trans)
  ultimately show "truncation_points (map Q xs) True \<noteq> [] \<and>
     hd (truncation_points (map Q xs) True) = ?k"
    unfolding tp using hd_filter_upt [OF k, of ?P] by blast
qed

lemma tighten_loop_mask:
  "\<not> sub_rcond u \<longrightarrow>
     tighten_loop cfg pvals rvals u = u \<or>
     (\<not> sub_rcond (tighten_loop cfg pvals rvals u) \<and>
      sub_mask (tighten_loop cfg pvals rvals u) =
        Some (map (\<lambda>p. p < sub_threshold (tighten_loop cfg pvals rvals u)) pvals)) \<or>
     (sub_rcond (tighten_loop cfg pvals rvals u) \<and>
      sub_mask (tighten_loop cfg pvals rvals u) = Some (map (\<lambda>r. r < 9 / 10) rvals))"
proof (induction rule: tighten_loop_induct)
  case (Exit u)
  show ?case by simp
next
  case (Break u u')
  from tighten_body_Break [OF Break(2)] show ?case by auto
next
  case (Again u u')
  from tighten_body_Again [OF Again(2)] Again(3) show ?case by auto
qed

lemma over_capacity_outcome:
  fixes cfg s
  defines "u \<equiv> tighten_loop cfg (included_pvals s) (included_rvals s) (sub_init s)"
  defines "k \<equiv> cut_index u (included_pvals s) (included_rvals s)"
  assumes oc: "over_capacity cfg s model = Inr st" and nr: "\<not> rcond s"
  shows "if k < length (if sub_rcond u then included_rvals s else included_pvals s)
         then \<exists>refit. fit cfg (take k (included s)) = Inr refit \<and>
                st = Done (s\<lparr>threshold_in := sub_threshold u, rcond := sub_rcond u,
                             included := take k (included s),
                             fit_log := fit_log s @ [take k (included s)]\<rparr>) refit
         else st = Done (s\<lparr>threshold_in := sub_threshold u, rcond := sub_rcond u\<rparr>) model"
proof -
  from oc obtain msk where m: "sub_mask u = Some msk"
    unfolding over_capacity_def Let_def u_def by (auto split: option.splits)
  have "sub_mask (sub_init s) = None" "\<not> sub_rcond (sub_init s)"
    using nr by (simp_all add: sub_init_def)
  with m tighten_loop_mask [of "sub_init s" cfg "included_pvals s" "included_rvals s"]
  have mk: "(\<not> sub_rcond u \<and> msk = map (\<lambda>p. p < sub_threshold u) (included_pvals s)) \<or>
            (sub_rcond u \<and> msk = map (\<lambda>r. r < 9 / 10) (included_rvals s))"
    unfolding u_def by auto
  let ?tp = "truncation_points msk (sub_rcond u)"
  let ?n = "length (if sub_rcond u then included_rvals s else included_pvals s)"
  have tp: "if k < ?n then ?tp \<noteq> [] \<and> hd ?tp = k else ?tp = []"
  proof (cases "sub_rcond u")
    case True
    with mk have e: "msk = map (\<lambda>r. r < 9 / 10) (included_rvals s)" by simp
    from True have k: "k = 4 + length (takeWhile (\<lambda>r. r < 9 / 10) (drop 4 (included_rvals s)))"
      unfolding k_def cut_index_def by simp
    show ?thesis
      using truncation_points_quality [of "\<lambda>r. r < 9 / 10" "included_rvals s"] True
      unfolding e k by simp
  next
    case False
    with mk have e: "msk = map (\<lambda>p. p < sub_threshold u) (included_pvals s)" by simp
    from False have k: "k = length (takeWhile (\<lambda>p. p < sub_threshold u) (included_pvals s))"
      unfolding k_def cut_index_def by simp
    show ?thesis
      using truncation_points_plain [of "\<lambda>p. p < sub_threshold u" "included_pvals s"] False
      unfolding e k by simp
  qed
  show ?thesis
  proof (cases "k < ?n")
    case True
    with tp have "?tp \<noteq> []" "hd ?tp = k" by simp_all
    with oc m True show ?thesis
      unfolding over_capacity_def Let_def u_def [symmetric]
      by (auto split: sum.splits)
  next
    case False
    with tp have "?tp = []" by simp
    with oc m False show ?thesis
      unfolding over_capacity_def Let_def u_def [symmetric] by simp
  qed
qed

lemma sqrt_081: "sqrt (81 / 100) = 9 / 10"
  by (rule real_sqrt_unique) (simp_all add: power2_eq_square)

lemmas scenario_C = eval_defs sqrt_quarter sqrt_081 orthogonal_fit_def cfg_C_def fit_C_def
  pvalue_C_def
  state_C4_def state_C5_def state_C6_def

lemmas scenario_D = eval_defs sqrt_quarter sqrt_081 orthogonal_fit_def cfg_D_def fit_D_def pvalue_D_def
  state_D5_def state_D6_def state_D7_def

lemma state_C4_reached: "state_after cfg_C 4 (init_state []) = Some state_C4"
  by (simp add: scenario_C eval_nat_numeral)

lemma state_C5_reached:
  "forward_backward cfg_C state_C4 =
     Inr (state_C5, True, projr (fit_C [''a'', ''b'', ''c'', ''d'', ''e'']))"
  by (simp add: scenario_C)

lemma state_C6_reached:
  "outer_pass cfg_C state_C4 = Inr (Done state_C6 (projr (fit_C [''a'', ''b'', ''c'', ''d''])))"
  by (simp add: scenario_C)

lemma state_D5_reached: "state_after cfg_D 5 (init_state []) = Some state_D5"
  by (simp add: scenario_D eval_nat_numeral)

lemma state_D6_reached:
  "forward_backward cfg_D state_D5 =
     Inr (state_D6, True, projr (fit_D [''a'', ''b'', ''c'', ''d'', ''e'', ''f'']))"
  by (simp add: scenario_D)

lemma state_D7_reached:
  "outer_pass cfg_D state_D5 = Inr (Done state_D7 (projr (fit_D [''a'', ''b'', ''c'', ''d''])))"
  by (simp add: scenario_D)

lemma tracks_within_step:
  assumes "outer_pass cfg s = Inr (Continue s')"
      and "length (included_pvals s) = length (included_rvals s) \<and>
           length (included_rvals s) \<le> length (included s)"
  shows "length (included_pvals s') = length (included_rvals s') \<and>
         length (included_rvals s') \<le> length (included s')"
proof -
  from assms(1) obtain s1 c1 s2 c2 m where f: "forward_step cfg s = Inr (s1, c1)"
    and b: "backward_step cfg s1 c1 = Inr (s2, c2, m)"
    and d: "decide cfg s2 c2 m = Inr (Continue s')" by (rule outer_pass_Continue)
  from forward_step_facts [OF f] assms(2)
  have 1: "length (included_pvals s1) = length (included_rvals s1) \<and>
           length (included_rvals s1) \<le> length (included s1)" by (auto split: if_splits)
  with backward_step_facts [OF b]
  have 2: "length (included_pvals s2) = length (included_rvals s2) \<and>
           length (included_rvals s2) \<le> length (included s2)"
    by (auto simp: length_remove_at)
  with decide_Continue [OF d] show ?thesis by auto
qed

lemma tracks_within:
  assumes "state_after cfg n (init_state il) = Some s0"
      and "forward_backward cfg s0 = Inr (s, c, m)"
  shows "length (included_pvals s) = length (included_rvals s) \<and>
         length (included_rvals s) \<le> length (included s)"
proof -
  have 0: "length (included_pvals s0) = length (included_rvals s0) \<and>
           length (included_rvals s0) \<le> length (included s0)"
    using assms(1)
  proof (rule state_after_invariant)
    show "length (included_pvals (init_state il)) = length (included_rvals (init_state il)) \<and>
          length (included_rvals (init_state il)) \<le> length (included (init_state il))"
      by (simp add: init_state_def)
  next
    fix s s' assume "length (included_pvals s) = length (included_rvals s) \<and>
           length (included_rvals s) \<le> length (included s)" "outer_pass cfg s = Inr (Continue s')"
    then show "length (included_pvals s') = length (included_rvals s') \<and>
         length (included_rvals s') \<le> length (included s')"
      using tracks_within_step by blast
  qed
  from assms(2) obtain s1 c1 where f: "forward_step cfg s0 = Inr (s1, c1)"
    and b: "backward_step cfg s1 c1 = Inr (s, c, m)"
    unfolding forward_backward_def by (auto split: sum.splits prod.splits)
  from forward_step_facts [OF f] 0
  have 1: "length (included_pvals s1) = length (included_rvals s1) \<and>
           length (included_rvals s1) \<le> length (included s1)" by (auto split: if_splits)
  with backward_step_facts [OF b] show ?thesis by (auto simp: length_remove_at)
qed

lemma forward_backward_no_drop:
  assumes "forward_backward cfg s0 = Inr (s, c, m)" "\<not> dropped s"
  shows "fit cfg (included s) = Inr m \<and> fit_log s \<noteq> [] \<and> last (fit_log s) = included s"
proof -
  from assms(1) obtain s1 c1 where b: "backward_step cfg s1 c1 = Inr (s, c, m)"
    unfolding forward_backward_def by (auto split: sum.splits prod.splits)
  from backward_step_facts [OF b] assms(2) show ?thesis by auto
qed

lemma reached_not_rcond:
  assumes "state_after cfg n (init_state il) = Some s0"
      and "forward_backward cfg s0 = Inr (s, c, m)"
  shows "\<not> rcond s"
  using head_flags [OF assms(1)] forward_backward_flags [OF assms(2)] by simp

lemma decide_over_capacity:
  assumes "max_vars cfg < int (length (included s))" "\<not> dropped s"
  shows "decide cfg s c m = over_capacity cfg s m"
  using assms unfolding decide_def by simp

lemma sub_loop_B:
  "sub_rcond (tighten_loop (cfg_B t) (included_pvals state_B2) (included_rvals state_B2)
     (sub_init state_B2)) = False"
  "sub_threshold (tighten_loop (cfg_B t) (included_pvals state_B2) (included_rvals state_B2)
     (sub_init state_B2)) = 2 / 100"
  by (simp_all add: scenario_B)

lemma cut_index_B:
  "cut_index (tighten_loop (cfg_B t) (included_pvals state_B2) (included_rvals state_B2)
     (sub_init state_B2)) (included_pvals state_B2) (included_rvals state_B2) = 1"
  unfolding cut_index_def sub_loop_B by (simp add: state_B2_def)

text \<open>
  C7, amended. Take a pass of an invocation that reaches the over-capacity handling
  (\<open>included\<close> longer than \<open>max_vars\<close>, \<open>dropped\<close> unset) and does not raise. If the
  sub-loop ends on the size branch, the cut index \<open>k\<close> is the length of the contiguous
  leading run of the p-value track that passes the final threshold; if it ends on the
  quality branch (\<open>rcond\<close>), \<open>k\<close> is the first index above 3 at which the r-value track is
  not below 0.9, so \<open>k\<close> is at least 4. If the tracks have an entry at \<open>k\<close>,
  \<open>included\<close> is cut to its first \<open>k\<close> features, a model is fitted on them and
  returned; otherwise \<open>included\<close> and the model of the backward step are returned as they
  are. In both cases the pass leaves the outer loop.
\<close>

theorem over_capacity_truncates:
  fixes cfg s
  defines "u \<equiv> tighten_loop cfg (included_pvals s) (included_rvals s) (sub_init s)"
  defines "k \<equiv> cut_index u (included_pvals s) (included_rvals s)"
  assumes "state_after cfg n (init_state initial_list) = Some s0"
      and "forward_backward cfg s0 = Inr (s, c, model)"
      and "max_vars cfg < int (length (included s))" and "\<not> dropped s"
      and "outer_pass cfg s0 = Inr st"
  shows "(sub_rcond u \<longrightarrow> 4 \<le> k) \<and>
         (if k < length (included_pvals s)
          then length (take k (included s)) = k \<and>
               (\<exists>refit. fit cfg (take k (included s)) = Inr refit \<and>
                  st = Done (s\<lparr>threshold_in := sub_threshold u, rcond := sub_rcond u,
                               included := take k (included s),
                               fit_log := fit_log s @ [take k (included s)]\<rparr>) refit)
          else st = Done (s\<lparr>threshold_in := sub_threshold u, rcond := sub_rcond u\<rparr>) model)"
proof -
  note tw = tracks_within [OF assms(3,4)]
  have oc: "over_capacity cfg s model = Inr st"
    using assms(7) decide_over_capacity [OF assms(5,6)]
    unfolding outer_pass_def assms(4) by simp
  from over_capacity_outcome [OF oc reached_not_rcond [OF assms(3,4)]] tw
  have "if k < length (included_pvals s)
         then \<exists>refit. fit cfg (take k (included s)) = Inr refit \<and>
                st = Done (s\<lparr>threshold_in := sub_threshold u, rcond := sub_rcond u,
                             included := take k (included s),
                             fit_log := fit_log s @ [take k (included s)]\<rparr>) refit
         else st = Done (s\<lparr>threshold_in := sub_threshold u, rcond := sub_rcond u\<rparr>) model"
    unfolding u_def k_def by (simp split: if_splits)
  moreover have "length (take k (included s)) = k" if "k < length (included_pvals s)"
    using that tw by simp
  moreover have "sub_rcond u \<longrightarrow> 4 \<le> k" unfolding k_def cut_index_def by simp
  ultimately show ?thesis by simp
qed

theorem over_capacity_truncates_witness:
  "state_after (cfg_B (5 / 100)) 1 (init_state []) = Some state_B1 \<and>
   forward_backward (cfg_B (5 / 100)) state_B1 =
     Inr (state_B2, True, projr (fit_B [''a'', ''b''])) \<and>
   max_vars (cfg_B (5 / 100)) < int (length (included state_B2)) \<and> \<not> dropped state_B2 \<and>
   outer_pass (cfg_B (5 / 100)) state_B1 = Inr (Done state_B3 (projr (fit_B [''a'']))) \<and>
   length (take 1 (included state_B2)) = 1 \<and>
   (\<exists>refit. fit (cfg_B (5 / 100)) (take 1 (included state_B2)) = Inr refit \<and>
      Done state_B3 (projr (fit_B [''a''])) =
        Done (state_B2\<lparr>threshold_in := 2 / 100, rcond := False,
                included := take 1 (included state_B2),
                fit_log := fit_log state_B2 @ [take 1 (included state_B2)]\<rparr>) refit)"
proof -
  note r = state_B1_reached [of "5 / 100"] and f = state_B2_reached [of "5 / 100"]
    and d = state_B3_reached [of "5 / 100"]
  have o: "max_vars (cfg_B (5 / 100)) < int (length (included state_B2))" "\<not> dropped state_B2"
    by (simp_all add: cfg_B_def state_B2_def)
  from over_capacity_truncates [OF r f o d]
  have "length (take 1 (included state_B2)) = 1 \<and>
   (\<exists>refit. fit (cfg_B (5 / 100)) (take 1 (included state_B2)) = Inr refit \<and>
      Done state_B3 (projr (fit_B [''a''])) =
        Done (state_B2\<lparr>threshold_in := 2 / 100, rcond := False,
                included := take 1 (included state_B2),
                fit_log := fit_log state_B2 @ [take 1 (included state_B2)]\<rparr>) refit)"
    unfolding cut_index_B sub_loop_B by (simp add: state_B2_def)
  with r f o d show ?thesis by blast
qed

text \<open>
  C7 as stated fails on the quality branch, where the mask is taken over the r-value
  track: on input C all five p-values pass every threshold of the sub-loop (0.01 at its
  last tightening, 0.02 on return), so the contiguous prefix of the p-value track is the
  whole of \<open>included\<close>, yet \<open>included\<close> is cut to four features.
\<close>

theorem truncated_although_p_values_pass:
  "state_after cfg_C 4 (init_state []) = Some state_C4 \<and>
   forward_backward cfg_C state_C4 =
     Inr (state_C5, True, projr (fit_C [''a'', ''b'', ''c'', ''d'', ''e''])) \<and>
   max_vars cfg_C < int (length (included state_C5)) \<and> \<not> dropped state_C5 \<and>
   outer_pass cfg_C state_C4 = Inr (Done state_C6 (projr (fit_C [''a'', ''b'', ''c'', ''d'']))) \<and>
   rcond state_C6 \<and> threshold_in state_C6 = 2 / 100 \<and>
   length (takeWhile (\<lambda>p. p < 1 / 100) (included_pvals state_C5)) = 5 \<and>
   length (takeWhile (\<lambda>p. p < 2 / 100) (included_pvals state_C5)) = 5 \<and>
   length (included state_C5) = 5 \<and> length (included state_C6) = 4"
  using state_C4_reached state_C5_reached state_C6_reached
  by (simp add: state_C5_def state_C6_def cfg_C_def)


lemma sub_loop_E:
  "sub_rcond (tighten_loop cfg_E (included_pvals state_E2) (included_rvals state_E2)
     (sub_init state_E2)) = True"
  "sub_threshold (tighten_loop cfg_E (included_pvals state_E2) (included_rvals state_E2)
     (sub_init state_E2)) = 6 / 100"
  "sub_mask (tighten_loop cfg_E (included_pvals state_E2) (included_rvals state_E2)
     (sub_init state_E2)) = Some [True, True]"
  by (simp_all add: scenario_E)

text \<open>
  C10, amended. Take a pass of an invocation that reaches the over-capacity handling, and
  let \<open>msk\<close> be the mask with which the sub-loop ends: the p-value track compared with
  the final threshold on the size branch, the r-value track compared with 0.9 on the
  quality branch (\<open>rcond\<close>). If \<open>msk\<close> has no failing entry (none above index 3 when
  \<open>rcond\<close> is set), the pass returns \<open>included\<close> as it is, together with the model of the
  backward step, and that fit is the last one performed.
\<close>

theorem untruncated_when_mask_passes:
  fixes cfg s
  defines "u \<equiv> tighten_loop cfg (included_pvals s) (included_rvals s) (sub_init s)"
  assumes "state_after cfg n (init_state initial_list) = Some s0"
      and "forward_backward cfg s0 = Inr (s, c, model)"
      and "max_vars cfg < int (length (included s))" and "\<not> dropped s"
      and "sub_mask u = Some msk"
      and "truncation_points msk (sub_rcond u) = []"
  shows "outer_pass cfg s0 =
           Inr (Done (s\<lparr>threshold_in := sub_threshold u, rcond := sub_rcond u\<rparr>) model) \<and>
         fit cfg (included s) = Inr model \<and> last (fit_log s) = included s \<and>
         msk = (if sub_rcond u then map (\<lambda>r. r < 9 / 10) (included_rvals s)
                else map (\<lambda>p. p < sub_threshold u) (included_pvals s))"
proof -
  have "over_capacity cfg s model =
          Inr (Done (s\<lparr>threshold_in := sub_threshold u, rcond := sub_rcond u\<rparr>) model)"
    using assms(6,7) unfolding over_capacity_def Let_def u_def by simp
  then have "outer_pass cfg s0 =
          Inr (Done (s\<lparr>threshold_in := sub_threshold u, rcond := sub_rcond u\<rparr>) model)"
    using decide_over_capacity [OF assms(4,5)] unfolding outer_pass_def assms(3) by simp
  moreover have "sub_mask (sub_init s) = None" "\<not> sub_rcond (sub_init s)"
    using reached_not_rcond [OF assms(2,3)] by (simp_all add: sub_init_def)
  with assms(6) tighten_loop_mask [of "sub_init s" cfg "included_pvals s" "included_rvals s"]
  have "msk = (if sub_rcond u then map (\<lambda>r. r < 9 / 10) (included_rvals s)
                else map (\<lambda>p. p < sub_threshold u) (included_pvals s))"
    unfolding u_def by auto
  ultimately show ?thesis using forward_backward_no_drop [OF assms(3,5)] by simp
qed

theorem untruncated_when_mask_passes_witness:
  "state_after cfg_E 1 (init_state []) = Some state_E1 \<and>
   forward_backward cfg_E state_E1 = Inr (state_E2, True, projr (fit_E [''a'', ''b''])) \<and>
   max_vars cfg_E < int (length (included state_E2)) \<and> \<not> dropped state_E2 \<and>
   truncation_points [True, True] True = [] \<and>
   outer_pass cfg_E state_E1 = Inr (Done state_E3 (projr (fit_E [''a'', ''b'']))) \<and>
   included state_E3 = included state_E2 \<and> fit_log state_E3 = fit_log state_E2 \<and>
   fit cfg_E (included state_E2) = Inr (projr (fit_E [''a'', ''b'']))"
proof -
  have o: "max_vars cfg_E < int (length (included state_E2))" "\<not> dropped state_E2"
    by (simp_all add: cfg_E_def state_E2_def)
  have t: "truncation_points [True, True] True = []"
    by (simp add: truncation_points_def)
  have e: "state_E2\<lparr>threshold_in := 6 / 100, rcond := True\<rparr> = state_E3"
    by (simp add: state_E2_def state_E3_def)
  from untruncated_when_mask_passes [OF state_E1_reached state_E2_reached o sub_loop_E(3)]
  have "outer_pass cfg_E state_E1 = Inr (Done state_E3 (projr (fit_E [''a'', ''b'']))) \<and>
        fit cfg_E (included state_E2) = Inr (projr (fit_E [''a'', ''b'']))"
    unfolding sub_loop_E e using t by simp
  moreover have "included state_E3 = included state_E2 \<and> fit_log state_E3 = fit_log state_E2"
    by (simp add: state_E2_def state_E3_def)
  ultimately show ?thesis using state_E1_reached state_E2_reached o t by blast
qed

text \<open>
  C10 as stated fails on the quality branch: on input D the p-value track has no failing
  entry under any threshold of the sub-loop, but the r-value at index 4 is not below 0.9,
  so \<open>included\<close> is cut to four features and a further fit is performed.
\<close>

theorem refit_although_p_mask_passes:
  "state_after cfg_D 5 (init_state []) = Some state_D5 \<and>
   forward_backward cfg_D state_D5 =
     Inr (state_D6, True, projr (fit_D [''a'', ''b'', ''c'', ''d'', ''e'', ''f''])) \<and>
   max_vars cfg_D < int (length (included state_D6)) \<and> \<not> dropped state_D6 \<and>
   outer_pass cfg_D state_D5 = Inr (Done state_D7 (projr (fit_D [''a'', ''b'', ''c'', ''d'']))) \<and>
   rcond state_D7 \<and> threshold_in state_D7 = 2 / 100 \<and>
   False \<notin> set (map (\<lambda>p. p < 1 / 100) (included_pvals state_D6)) \<and>
   False \<notin> set (map (\<lambda>p. p < 2 / 100) (included_pvals state_D6)) \<and>
   included state_D7 = take 4 (included state_D6) \<and>
   included state_D7 \<noteq> included state_D6 \<and>
   fit_log state_D7 = fit_log state_D6 @ [[''a'', ''b'', ''c'', ''d'']]"
  using state_D5_reached state_D6_reached state_D7_reached
  by (simp add: state_D6_def state_D7_def cfg_D_def)

subsection \<open>Running again from the result\<close>

lemma tighten_loop_empty:
  "(max_vars cfg < sub_psize u \<or> sub_idem u) \<longrightarrow>
     sub_mask (tighten_loop cfg [] [] u) = Some []"
proof (induction rule: tighten_loop_induct)
  case (Exit u)
  then show ?case by simp
next
  case (Break u u')
  from tighten_body_Break [OF Break(2)] show ?case by auto
next
  case (Again u u')
  from tighten_body_Again [OF Again(2)] Again(3) show ?case by simp
qed

lemma unchanged_pass:
  assumes "forward_backward cfg s0 = Inr (s, False, m)"
  shows "s = s0\<lparr>fit_log := fit_log s\<rparr>"
proof -
  from assms obtain s1 c1 where f: "forward_step cfg s0 = Inr (s1, c1)"
    and b: "backward_step cfg s1 c1 = Inr (s, False, m)"
    unfolding forward_backward_def by (auto split: sum.splits prod.splits)
  from backward_step_facts [OF b] have c1: "\<not> c1" and
    1: "included s = included s1 \<and> included_pvals s = included_pvals s1 \<and>
        included_rvals s = included_rvals s1 \<and> dropped s = dropped s1 \<and>
        threshold_in s = threshold_in s1 \<and> lower s = lower s1 \<and> rcond s = rcond s1 \<and>
        onetime s = onetime s1" by auto
  from forward_step_facts [OF f] c1 1 show ?thesis by simp
qed

lemma state_Ar_reached:
  "forward_backward
     \<lparr>fit = fit_A, columns = [''a'', ''b''], set_order = listed_order [''a'', ''b''],
      caller_threshold_in = 5 / 100, threshold_out = 1 / 10, max_vars = 12, min_vars = 1\<rparr>
     (init_state [''b'']) = Inr (state_Ar, False, projr (fit_A [''b'']))"
  by (simp add: scenario_A state_Ar_def)

lemma first_run_A:
  "returned_selection (stepwise_selection fit_A [''a'', ''b''] (listed_order [''a'', ''b''])
      [Some 1, Some 2] [] (5 / 100) (1 / 10) 12 1) = Some [''b'']"
  "returned_threshold (stepwise_selection fit_A [''a'', ''b''] (listed_order [''a'', ''b''])
      [Some 1, Some 2] [] (5 / 100) (1 / 10) 12 1) = Some (5 / 100)"
  by (simp_all add: scenario_A returned_selection_def returned_threshold_def
        stepwise_selection_def outer_loop.simps)

text \<open>
  C5, amended. Run the selection with \<open>initial_list = S\<close> on a target without NaN. If
  the first pass, which runs at the forced threshold 0.1 whatever \<open>threshold_in\<close> is
  passed, fits without raising, adds no candidate and drops no feature (and \<open>max_vars\<close>
  is below 999 in case \<open>S\<close> is longer than \<open>max_vars\<close>), then the invocation returns
  after that single pass with the selection \<open>S\<close> and the model of its backward step.
\<close>

theorem rerun_keeps_stable_selection:
  fixes X_fit X_columns order thr_in thr_out maxv minv
  defines "cfg \<equiv> \<lparr>fit = X_fit, columns = X_columns, set_order = order,
                     caller_threshold_in = thr_in, threshold_out = thr_out,
                     max_vars = maxv, min_vars = minv\<rparr>"
  assumes "None \<notin> set y"
      and "forward_backward cfg (init_state S) = Inr (s, False, m)"
      and "int (length S) \<le> maxv \<or> maxv < 999"
  shows "\<exists>r. stepwise_selection X_fit X_columns order y S thr_in thr_out maxv minv = Some (Inr r) \<and>
             selected r = S \<and> final_model r = Some m \<and> fits_performed r = fit_log s"
proof -
  note u = unchanged_pass [OF assms(3)]
  from u have s: "included s = S" "included_pvals s = []" "included_rvals s = []"
    "threshold_in s = 1 / 10" "\<not> dropped s"
    by (metis (no_types) init_state_def state.select_convs state.update_convs state.surjective)+
  have "\<exists>s'. decide cfg s False m = Inr (Done s' m) \<and> included s' = S \<and> fit_log s' = fit_log s"
  proof (cases "max_vars cfg < int (length (included s))")
    case False
    then show ?thesis using s unfolding decide_def stall_branch_def by auto
  next
    case True
    with s assms(4) have "max_vars cfg < sub_psize (sub_init s)"
      by (simp add: cfg_def sub_init_def)
    with tighten_loop_empty [of cfg "sub_init s"]
    have "sub_mask (tighten_loop cfg [] [] (sub_init s)) = Some []" by simp
    then have "\<exists>s'. over_capacity cfg s m = Inr (Done s' m) \<and> included s' = S \<and>
                    fit_log s' = fit_log s"
      using s unfolding over_capacity_def Let_def by (simp add: truncation_points_def)
    with True s show ?thesis unfolding decide_def by simp
  qed
  then obtain s' where p: "outer_pass cfg (init_state S) = Inr (Done s' m)"
    and s': "included s' = S" "fit_log s' = fit_log s"
    unfolding outer_pass_def assms(3) by auto
  from p have "outer_loop cfg (init_state S) = Some (Inr (s', m))"
    by (subst outer_loop.simps) simp
  with assms(2) s' show ?thesis
    unfolding stepwise_selection_def cfg_def [symmetric] by simp
qed

theorem rerun_keeps_stable_selection_witness:
  "None \<notin> set [Some 1, Some (2 :: real)] \<and>
   returned_selection (stepwise_selection fit_A [''a'', ''b''] (listed_order [''a'', ''b''])
      [Some 1, Some 2] [] (5 / 100) (1 / 10) 12 1) = Some [''b''] \<and>
   returned_threshold (stepwise_selection fit_A [''a'', ''b''] (listed_order [''a'', ''b''])
      [Some 1, Some 2] [] (5 / 100) (1 / 10) 12 1) = Some (5 / 100) \<and>
   returned_selection (stepwise_selection fit_A [''a'', ''b''] (listed_order [''a'', ''b''])
      [Some 1, Some 2] [''b''] (5 / 100) (1 / 10) 12 1) = Some [''b'']"
proof -
  have y: "None \<notin> set [Some 1, Some (2 :: real)]" by simp
  have b: "int (length [''b'']) \<le> 12 \<or> (12 :: int) < 999" by simp
  from rerun_keeps_stable_selection [OF y state_Ar_reached b]
  have "returned_selection (stepwise_selection fit_A [''a'', ''b''] (listed_order [''a'', ''b''])
      [Some 1, Some 2] [''b''] (5 / 100) (1 / 10) 12 1) = Some [''b'']"
    unfolding returned_selection_def by auto
  with y first_run_A show ?thesis by blast
qed

text \<open>
  C5 as stated fails: on input B the invocation returns \<open>[a]\<close> with the threshold 0.02;
  run again with \<open>initial_list = [a]\<close> and \<open>threshold_in = 0.02\<close>, the forward step works
  at the forced threshold 0.1, adds \<open>b\<close> (p-value 0.05) and the invocation returns
  \<open>[a, b]\<close>.
\<close>

theorem rerun_adds_a_feature:
  "returned_selection (stepwise_selection fit_B [''a'', ''b''] (listed_order [''a'', ''b''])
      [Some 1, Some 2] [] (5 / 100) (1 / 10) 1 1) = Some [''a''] \<and>
   returned_threshold (stepwise_selection fit_B [''a'', ''b''] (listed_order [''a'', ''b''])
      [Some 1, Some 2] [] (5 / 100) (1 / 10) 1 1) = Some (2 / 100) \<and>
   returned_selection (stepwise_selection fit_B [''a'', ''b''] (listed_order [''a'', ''b''])
      [Some 1, Some 2] [''a''] (2 / 100) (1 / 10) 1 1) = Some [''a'', ''b'']"
  by (simp add: scenario_B returned_selection_def returned_threshold_def
        stepwise_selection_def outer_loop.simps)

subsection \<open>The choice of the forward step\<close>

lemma fit_candidates_map:
  "fit_candidates cfg (included s) exc = Inr prs \<Longrightarrow>
     prs = map (\<lambda>c. (forward_pvalue cfg s c, forward_rvalue cfg s c)) exc"
  by (induction exc arbitrary: prs)
     (auto simp: forward_pvalue_def forward_rvalue_def split: sum.splits)

lemma argmin_first: "j < argmin ps \<Longrightarrow> ps ! j \<noteq> Min (set ps)"
  unfolding argmin_def by (rule first_index_least)

lemma forward_step_choice:
  fixes cfg s
  defines "exc \<equiv> excluded_of cfg s"
  defines "pv \<equiv> forward_pvalue cfg s"
  defines "i \<equiv> argmin (map pv exc)"
  assumes "forward_step cfg s = Inr (s1, c1)"
  shows "if exc \<noteq> [] \<and> Min (pv ` set exc) < threshold_in s
         then c1 \<and> i < length exc \<and> included s1 = included s @ [exc ! i] \<and>
              included_pvals s1 = included_pvals s @ [pv (exc ! i)] \<and>
              included_rvals s1 = included_rvals s @ [forward_rvalue cfg s (exc ! i)] \<and>
              pv (exc ! i) = Min (pv ` set exc) \<and>
              (\<forall>j<i. pv (exc ! j) \<noteq> Min (pv ` set exc))
         else \<not> c1 \<and> included s1 = included s \<and> included_pvals s1 = included_pvals s \<and>
              included_rvals s1 = included_rvals s"
proof -
  from assms(4) obtain prs where fc: "fit_candidates cfg (included s) exc = Inr prs"
    unfolding forward_step_def Let_def exc_def by (auto split: sum.splits)
  note m = fit_candidates_map [OF fc]
  have np: "map fst prs = map pv exc" and nr: "map snd prs = map (forward_rvalue cfg s) exc"
    unfolding m pv_def by simp_all
  let ?s0 = "s\<lparr>fit_log := fit_log s @ map (\<lambda>c. included s @ [c]) exc\<rparr>"
  have eq: "forward_step cfg s =
     (if exc = [] \<or> \<not> Min (pv ` set exc) < threshold_in s then Inr (?s0, False)
      else Inr (?s0\<lparr>included := included s @ [exc ! i],
                    included_pvals := included_pvals s @ [Min (pv ` set exc)],
                    included_rvals := included_rvals s @ [map (forward_rvalue cfg s) exc ! i]\<rparr>,
                True))"
    by (simp add: forward_step_def Let_def exc_def [symmetric] fc np nr series_min_def i_def)
  show ?thesis
  proof (cases "exc = [] \<or> \<not> Min (pv ` set exc) < threshold_in s")
    case True
    with assms(4) eq show ?thesis by auto
  next
    case False
    then have ne: "map pv exc \<noteq> []" by simp
    from argmin_less [OF ne] have il: "i < length exc" unfolding i_def by simp
    from argmin_nth [OF ne] il have mi: "pv (exc ! i) = Min (pv ` set exc)"
      unfolding i_def [symmetric] by simp
    have fi: "\<forall>j<i. pv (exc ! j) \<noteq> Min (pv ` set exc)"
    proof (intro allI impI)
      fix j assume j: "j < i"
      with argmin_first [of j "map pv exc"] il show "pv (exc ! j) \<noteq> Min (pv ` set exc)"
        unfolding i_def [symmetric] by simp
    qed
    from assms(4) eq False il mi fi show ?thesis by auto
  qed
qed

lemma forward_A_listed:
  "forward_step (cfg_A t) (init_state []) = Inr (state_A0f [[''a''], [''b'']], True)"
  "forward_step (cfg_A t\<lparr>set_order := listed_order [''b'', ''a'']\<rparr>) (init_state []) =
     Inr (state_A0f [[''b''], [''a'']], True)"
  by (simp_all add: scenario_A state_A0f_def)

text \<open>
  C9, amended. The forward step adds the candidate that comes first, in the iteration
  order of the set of excluded columns, among those with the minimum forward p-value.
  Take one state and two iteration orders of the same excluded set. If a single candidate
  attains the minimum, both forward steps take the same decision and, when they add, add
  the same feature with the same track entries.
\<close>

theorem forward_choice_without_ties:
  fixes cfg s order'
  defines "A \<equiv> set (columns cfg) - set (included s)"
  defines "pv \<equiv> forward_pvalue cfg s"
  assumes "forward_step cfg s = Inr (s1, c1)"
      and "forward_step (cfg\<lparr>set_order := order'\<rparr>) s = Inr (s1', c1')"
      and "set (set_order cfg A) = A" and "set (order' A) = A"
      and "\<forall>x\<in>A. \<forall>y\<in>A. (\<forall>z\<in>A. pv x \<le> pv z) \<and> (\<forall>z\<in>A. pv y \<le> pv z) \<longrightarrow> x = y"
  shows "c1' = c1 \<and> included s1' = included s1 \<and> included_pvals s1' = included_pvals s1 \<and>
         included_rvals s1' = included_rvals s1 \<and>
         (c1 \<longrightarrow> (\<exists>i<length (excluded_of cfg s).
                   included s1 = included s @ [excluded_of cfg s ! i] \<and>
                   (\<forall>z\<in>A. pv (excluded_of cfg s ! i) \<le> pv z) \<and>
                   (\<forall>j<i. pv (excluded_of cfg s ! i) < pv (excluded_of cfg s ! j))))"
proof -
  let ?cfg' = "cfg\<lparr>set_order := order'\<rparr>"
  let ?e = "excluded_of cfg s" and ?e' = "excluded_of ?cfg' s"
  have se: "set ?e = A" "set ?e' = A"
    using assms(5,6) unfolding excluded_of_def A_def by simp_all
  have fin: "finite A" unfolding A_def by simp
  have pv': "forward_pvalue ?cfg' s = pv" "forward_rvalue ?cfg' s = forward_rvalue cfg s"
    unfolding pv_def by (auto simp: forward_pvalue_def forward_rvalue_def)
  note ch = forward_step_choice [OF assms(3), folded pv_def, unfolded se]
    and ch' = forward_step_choice [OF assms(4), unfolded pv', unfolded se]
  have en: "?e = [] \<longleftrightarrow> ?e' = []" using se by (metis set_empty)
  show ?thesis
  proof (cases "?e \<noteq> [] \<and> Min (pv ` A) < threshold_in s")
    case False
    with ch ch' en show ?thesis by (simp split: if_splits)
  next
    case True
    define i where "i = argmin (map pv ?e)"
    define i' where "i' = argmin (map pv ?e')"
    from True en have T': "?e' \<noteq> [] \<and> Min (pv ` A) < threshold_in s" by simp
    from ch True have 1: "c1" "i < length ?e" "included s1 = included s @ [?e ! i]"
      "included_pvals s1 = included_pvals s @ [pv (?e ! i)]"
      "included_rvals s1 = included_rvals s @ [forward_rvalue cfg s (?e ! i)]"
      "pv (?e ! i) = Min (pv ` A)" "\<forall>j<i. pv (?e ! j) \<noteq> Min (pv ` A)"
      unfolding i_def by simp_all
    from ch' T' have 2: "c1'" "i' < length ?e'" "included s1' = included s @ [?e' ! i']"
      "included_pvals s1' = included_pvals s @ [pv (?e' ! i')]"
      "included_rvals s1' = included_rvals s @ [forward_rvalue cfg s (?e' ! i')]"
      "pv (?e' ! i') = Min (pv ` A)"
      unfolding i'_def by simp_all
    from 1(2) 2(2) se have inA: "?e ! i \<in> A" "?e' ! i' \<in> A" by (metis nth_mem)+
    have least: "\<forall>z\<in>A. Min (pv ` A) \<le> pv z" using fin by simp
    with inA 1(6) 2(6) assms(7) have same: "?e' ! i' = ?e ! i" by metis
    have strict: "\<forall>j<i. pv (?e ! i) < pv (?e ! j)"
    proof (intro allI impI)
      fix j assume j: "j < i"
      with 1(2) se have "?e ! j \<in> A" by (metis nth_mem less_trans)
      with least have "Min (pv ` A) \<le> pv (?e ! j)" by blast
      moreover from 1(7) j have "pv (?e ! j) \<noteq> Min (pv ` A)" by blast
      ultimately show "pv (?e ! i) < pv (?e ! j)" unfolding 1(6) by linarith
    qed
    from 1 2 same least strict show ?thesis by auto
  qed
qed

theorem forward_choice_without_ties_witness:
  "forward_step (cfg_A (5 / 100)) (init_state []) = Inr (state_A0f [[''a''], [''b'']], True) \<and>
   forward_step (cfg_A (5 / 100)\<lparr>set_order := listed_order [''b'', ''a'']\<rparr>) (init_state []) =
     Inr (state_A0f [[''b''], [''a'']], True) \<and>
   set (listed_order [''a'', ''b''] (set [''a'', ''b''])) = set [''a'', ''b''] \<and>
   set (listed_order [''b'', ''a''] (set [''a'', ''b''])) = set [''a'', ''b''] \<and>
   forward_pvalue (cfg_A (5 / 100)) (init_state []) ''a'' = 1 / 100 \<and>
   forward_pvalue (cfg_A (5 / 100)) (init_state []) ''b'' = 3 / 100 \<and>
   included (state_A0f [[''b''], [''a'']]) = included (state_A0f [[''a''], [''b'']])"
proof -
  let ?cfg = "cfg_A (5 / 100)" and ?s = "init_state []"
  have A: "set (columns ?cfg) - set (included ?s) = set [''a'', ''b'']"
    by (simp add: cfg_A_def init_state_def)
  have o: "set (set_order ?cfg (set (columns ?cfg) - set (included ?s))) =
             set (columns ?cfg) - set (included ?s)"
          "set (listed_order [''b'', ''a''] (set (columns ?cfg) - set (included ?s))) =
             set (columns ?cfg) - set (included ?s)"
    unfolding A by (auto simp: cfg_A_def listed_order_def)
  have p: "forward_pvalue ?cfg ?s ''a'' = 1 / 100" "forward_pvalue ?cfg ?s ''b'' = 3 / 100"
    by (simp_all add: forward_pvalue_def scenario_A)
  have u: "\<forall>x\<in>set (columns ?cfg) - set (included ?s).
           \<forall>y\<in>set (columns ?cfg) - set (included ?s).
             (\<forall>z\<in>set (columns ?cfg) - set (included ?s).
                 forward_pvalue ?cfg ?s x \<le> forward_pvalue ?cfg ?s z) \<and>
             (\<forall>z\<in>set (columns ?cfg) - set (included ?s).
                 forward_pvalue ?cfg ?s y \<le> forward_pvalue ?cfg ?s z) \<longrightarrow> x = y"
    unfolding A using p by simp
  from forward_choice_without_ties [OF forward_A_listed(1) forward_A_listed(2) o u]
  have "included (state_A0f [[''b''], [''a'']]) = included (state_A0f [[''a''], [''b'']])"
    by simp
  moreover have "set (listed_order [''a'', ''b''] (set [''a'', ''b''])) = set [''a'', ''b'']"
    "set (listed_order [''b'', ''a''] (set [''a'', ''b''])) = set [''a'', ''b'']"
    by (auto simp: listed_order_def)
  ultimately show ?thesis using forward_A_listed p by blast
qed

text \<open>
  C9 as stated fails on a tie: the code breaks it by the iteration order of a Python
  set, which identical inputs do not determine. On input T, the two iteration orders
  \<open>a, b\<close> and \<open>b, a\<close> of the same set make the invocation return \<open>[a]\<close> and \<open>[b]\<close>.
\<close>

theorem tie_broken_by_set_order:
  "set (listed_order [''a'', ''b''] (set [''a'', ''b''])) =
     set (listed_order [''b'', ''a''] (set [''a'', ''b''])) \<and>
   returned_selection (stepwise_selection fit_T [''a'', ''b''] (listed_order [''a'', ''b''])
      [Some 1, Some 2] [] (5 / 100) (1 / 10) 12 1) = Some [''a''] \<and>
   returned_selection (stepwise_selection fit_T [''a'', ''b''] (listed_order [''b'', ''a''])
      [Some 1, Some 2] [] (5 / 100) (1 / 10) 12 1) = Some [''b'']"
proof -
  have "set (listed_order [''a'', ''b''] (set [''a'', ''b''])) =
     set (listed_order [''b'', ''a''] (set [''a'', ''b'']))"
    by (auto simp: listed_order_def)
  then show ?thesis
    by (simp add: eval_defs sqrt_quarter fit_T_def returned_selection_def
          stepwise_selection_def outer_loop.simps)
qed

end
